theory Spec2Isabelle
  imports Complex_Main "HOL-Library.AList" "HOL-Library.Multiset" "HOL-Library.Option_ord"
    "HOL-Library.Log_Nat"
begin

unbundle bit_operations_syntax

section \<open>Data frames\<close>

text \<open>
  The splitters of \<^verbatim>\<open>TrainTestSplit.py\<close> are methods patched onto a Spark data frame.
  A data frame is a schema (the column names, in order) and a bag of rows; a row gives a
  cell to every column name. Cells are SQL values: \<open>Null\<close>, an integer (ids, counts,
  row numbers, time stamps) or a double. A double is kept as the rational number it
  denotes; the product \<^verbatim>\<open>count * ratio\<close> of the source is the product of two doubles and
  is rounded as the machine rounds it (\<open>double_times\<close> below).

  The list of rows stands for one order in which the engine may deliver the bag; no
  theorem below depends on that order beyond what it states.
\<close>

datatype val = Null | IntV int | DoubleV rat

type_synonym row = "(string \<times> val) list"

record dataframe =
  columns :: "string list"
  rows :: "row list"

datatype error = AnalysisException | IllegalArgumentException | ValueError | TypeError | IndexError

text \<open>What a splitter hands back: an exception, the integer \<^verbatim>\<open>-1\<close> of the
  \<^verbatim>\<open>return -1\<close> branch, or the pair \<^verbatim>\<open>rating_train, rating_test\<close>.\<close>

datatype outcome = Raised error | Minus_One | Split dataframe dataframe

definition cell :: "row \<Rightarrow> string \<Rightarrow> val" where
  "cell r c = (case map_of r c of None \<Rightarrow> Null | Some v \<Rightarrow> v)"

fun num_of :: "val \<Rightarrow> rat option" where
  "num_of Null = None"
| "num_of (IntV i) = Some (of_int i)"
| "num_of (DoubleV q) = Some q"

text \<open>SQL comparisons: a comparison with \<open>Null\<close> is not true, so \<^verbatim>\<open>where\<close> and
  \<^verbatim>\<open>filter\<close> drop the row.\<close>

definition val_ge :: "val \<Rightarrow> val \<Rightarrow> bool" where
  "val_ge a b = (case (num_of a, num_of b) of (Some x, Some y) \<Rightarrow> y \<le> x | _ \<Rightarrow> False)"

definition val_gt :: "val \<Rightarrow> val \<Rightarrow> bool" where
  "val_gt a b = (case (num_of a, num_of b) of (Some x, Some y) \<Rightarrow> y < x | _ \<Rightarrow> False)"

definition val_le :: "val \<Rightarrow> val \<Rightarrow> bool" where
  "val_le a b = (case (num_of a, num_of b) of (Some x, Some y) \<Rightarrow> x \<le> y | _ \<Rightarrow> False)"

text \<open>A column name can be referenced when exactly one column carries it; Spark raises
  an \<^verbatim>\<open>AnalysisException\<close> for a missing and for an ambiguous reference.\<close>

definition resolvable :: "string list \<Rightarrow> string \<Rightarrow> bool" where
  "resolvable cs c = (count_list cs c = 1)"

text \<open>\<^verbatim>\<open>df.groupBy(k).agg({c: "count"})\<close>: one row per value of column \<open>k\<close> (the null
  key is a group of its own), holding the number of rows of the group whose \<open>c\<close> cell is
  not null. Every row counts, repeated ones too.\<close>

definition group_keys :: "string \<Rightarrow> row list \<Rightarrow> val list" where
  "group_keys k rs = remdups (map (\<lambda>r. cell r k) rs)"

definition count_in_group :: "string \<Rightarrow> string \<Rightarrow> row list \<Rightarrow> val \<Rightarrow> nat" where
  "count_in_group k c rs g = length (filter (\<lambda>r. cell r k = g \<and> cell r c \<noteq> Null) rs)"

definition groupBy_count :: "string \<Rightarrow> string \<Rightarrow> dataframe \<Rightarrow> dataframe" where
  "groupBy_count k c df =
     \<lparr>columns = [k, ''count('' @ c @ '')''],
      rows = map (\<lambda>g. [(k, g), (''count('' @ c @ '')'', IntV (int (count_in_group k c (rows df) g)))])
                 (group_keys k (rows df))\<rparr>"

definition withColumnRenamed :: "string \<Rightarrow> string \<Rightarrow> dataframe \<Rightarrow> dataframe" where
  "withColumnRenamed old new df =
     \<lparr>columns = map (\<lambda>c. if c = old then new else c) (columns df),
      rows = map (map (\<lambda>(c, v). (if c = old then new else c, v))) (rows df)\<rparr>"

text \<open>\<^verbatim>\<open>where\<close> and \<^verbatim>\<open>filter\<close> keep the rows on which the condition is true.\<close>

definition where_rows :: "(row \<Rightarrow> bool) \<Rightarrow> dataframe \<Rightarrow> dataframe" where
  "where_rows p df = \<lparr>columns = columns df, rows = filter p (rows df)\<rparr>"

text \<open>\<^verbatim>\<open>left.join(right, k)\<close>: the inner equi-join on column \<open>k\<close>. The join column comes
  first, then the other columns of the left and of the right side; a null key matches
  nothing.\<close>

definition join_row :: "string \<Rightarrow> row \<Rightarrow> row \<Rightarrow> row" where
  "join_row k l r = (k, cell l k) # AList.delete k l @ AList.delete k r"

definition join_on :: "string \<Rightarrow> dataframe \<Rightarrow> dataframe \<Rightarrow> dataframe" where
  "join_on k left right =
     \<lparr>columns = k # removeAll k (columns left) @ removeAll k (columns right),
      rows = concat (map (\<lambda>l. concat (map (\<lambda>r.
                 if cell l k \<noteq> Null \<and> cell l k = cell r k then [join_row k l r] else [])
               (rows right))) (rows left))\<rparr>"

text \<open>\<^verbatim>\<open>left.join(right, on=k, how="outer")\<close>: the matches of the inner join, then the
  rows of either side that match nothing, padded with nulls.\<close>

definition null_row :: "string \<Rightarrow> string list \<Rightarrow> row" where
  "null_row k cs = map (\<lambda>c. (c, Null)) (removeAll k cs)"

definition unmatched :: "string \<Rightarrow> row list \<Rightarrow> row \<Rightarrow> bool" where
  "unmatched k others r = (cell r k = Null \<or> cell r k \<notin> set (map (\<lambda>x. cell x k) others))"

definition outer_join_on :: "string \<Rightarrow> dataframe \<Rightarrow> dataframe \<Rightarrow> dataframe" where
  "outer_join_on k left right =
     \<lparr>columns = columns (join_on k left right),
      rows = rows (join_on k left right)
        @ map (\<lambda>l. (k, cell l k) # AList.delete k l @ null_row k (columns right))
              (filter (unmatched k (rows right)) (rows left))
        @ map (\<lambda>r. (k, cell r k) # null_row k (columns left) @ AList.delete k r)
              (filter (unmatched k (rows left)) (rows right))\<rparr>"

text \<open>\<^verbatim>\<open>drop(c)\<close> removes every column of that name and is silent when there is none.\<close>

definition drop_col :: "string \<Rightarrow> dataframe \<Rightarrow> dataframe" where
  "drop_col c df =
     \<lparr>columns = removeAll c (columns df), rows = map (AList.delete c) (rows df)\<rparr>"

text \<open>\<^verbatim>\<open>withColumn(c, e)\<close> replaces the column \<open>c\<close> when the frame has one and appends
  it otherwise.\<close>

definition withColumn :: "string \<Rightarrow> (row \<Rightarrow> val) \<Rightarrow> dataframe \<Rightarrow> dataframe" where
  "withColumn c e df =
     \<lparr>columns = (if c \<in> set (columns df) then columns df else columns df @ [c]),
      rows = map (\<lambda>r. AList.update c (e r) r) (rows df)\<rparr>"

definition select_cols :: "string list \<Rightarrow> dataframe \<Rightarrow> dataframe" where
  "select_cols cs df = \<lparr>columns = cs, rows = map (\<lambda>r. map (\<lambda>c. (c, cell r c)) cs) (rows df)\<rparr>"

text \<open>\<^verbatim>\<open>row_number()\<close> numbers the rows of an ordered window partition from 1.\<close>

fun number_from :: "string \<Rightarrow> nat \<Rightarrow> row list \<Rightarrow> row list" where
  "number_from a i [] = []"
| "number_from a i (r # rs) = (r @ [(a, IntV (int i))]) # number_from a (Suc i) rs"

text \<open>\<^verbatim>\<open>select('*', row_number().over(Window.partitionBy(k).orderBy(o)).alias(a))\<close>:
  the rows of each partition are put in the window's order \<open>ord\<close> and numbered; the
  number is appended as column \<open>a\<close>.\<close>

definition partition_of :: "string \<Rightarrow> row list \<Rightarrow> val \<Rightarrow> row list" where
  "partition_of k rs g = filter (\<lambda>r. cell r k = g) rs"

definition select_row_number :: "string \<Rightarrow> (row list \<Rightarrow> row list) \<Rightarrow> string \<Rightarrow> dataframe \<Rightarrow> dataframe" where
  "select_row_number k ord a df =
     \<lparr>columns = columns df @ [a],
      rows = concat (map (\<lambda>g. number_from a 1 (ord (partition_of k (rows df) g)))
                         (group_keys k (rows df)))\<rparr>"

text \<open>The same over \<^verbatim>\<open>Window.orderBy(o)\<close>, a window with a single partition.\<close>

definition select_row_number_all :: "(row list \<Rightarrow> row list) \<Rightarrow> string \<Rightarrow> dataframe \<Rightarrow> dataframe" where
  "select_row_number_all ord a df =
     \<lparr>columns = columns df @ [a], rows = number_from a 1 (ord (rows df))\<rparr>"

text \<open>Rounding to an integer, ties to the even neighbour: Spark's \<^verbatim>\<open>bround\<close> and the
  built-in \<^verbatim>\<open>round\<close> of Python 3.\<close>

definition bround :: "rat \<Rightarrow> int" where
  "bround x =
     (let f = \<lfloor>x\<rfloor>; d = x - of_int f
      in if d < 1 / 2 then f else if 1 / 2 < d then f + 1 else if even f then f else f + 1)"

text \<open>A Python \<^verbatim>\<open>float\<close> and a Spark \<^verbatim>\<open>double\<close> are IEEE 754 binary64 numbers: a
  significand of 53 bits times a power of two, the smallest spacing being \<open>pow2 (- 1074)\<close>.
  \<open>pow2 e\<close> is the power of two with the integer exponent \<open>e\<close>, \<open>binade x\<close> is the
  exponent \<open>e\<close> with \<open>pow2 e \<le> \<bar>x\<bar> < pow2 (e + 1)\<close>, and \<open>double_of x\<close> is the double nearest
  to \<open>x\<close>, the one with the even significand when two are equally near: the value of
  the literal \<open>x\<close>, of an integer \<open>x\<close> converted to a double, and of an operation whose
  exact result is \<open>x\<close>. A result beyond the largest double (about 1.8e308), which the
  machine gives as infinity, is not modelled.\<close>

definition pow2 :: "int \<Rightarrow> rat" where
  "pow2 e = (if 0 \<le> e then 2 ^ nat e else 1 / 2 ^ nat (- e))"

definition binade :: "rat \<Rightarrow> int" where
  "binade x =
     (case quotient_of \<bar>x\<bar> of (p, q) \<Rightarrow>
        let d = bitlen p - bitlen q in if pow2 d \<le> \<bar>x\<bar> then d else d - 1)"

definition double_of :: "rat \<Rightarrow> rat" where
  "double_of x =
     (if x = 0 then 0
      else let ulp = pow2 (max (binade x - 52) (- 1074))
           in of_int (bround (x / ulp)) * ulp)"

text \<open>\<^verbatim>\<open>x * y\<close> in double arithmetic: both operands become doubles, and the exact product
  of the two doubles is rounded to a double.\<close>

definition double_times :: "rat \<Rightarrow> rat \<Rightarrow> rat" where
  "double_times x y = double_of (double_of x * double_of y)"

section \<open>TrainTestSplit.py\<close>

text \<open>The argument \<^verbatim>\<open>ratio\<close> of the splitters is a Python float. It is given as the
  number written in the call, such as \<open>3 / 10\<close> for \<^verbatim>\<open>0.3\<close>, and stands for the double
  \<open>double_of ratio\<close>.\<close>

definition split_by_column :: "bool \<Rightarrow> string" where
  "split_by_column by_customer = (if by_customer then ''customer'' @ ''ID'' else ''item'' @ ''ID'')"

definition split_with_column :: "bool \<Rightarrow> string" where
  "split_with_column by_customer = (if by_customer then ''item'' @ ''ID'' else ''customer'' @ ''ID'')"

text \<open>\<^verbatim>\<open>min_rating_filter\<close>: count per group, keep the groups whose count reaches
  \<^verbatim>\<open>min_rating\<close>, join them back with the frame and drop the count.\<close>

definition min_rating_filter :: "dataframe \<Rightarrow> int \<Rightarrow> bool \<Rightarrow> error + dataframe" where
  "min_rating_filter self min_rating by_customer =
     (let k = split_by_column by_customer; w = split_with_column by_customer in
      if resolvable (columns self) k \<and> resolvable (columns self) w
      then Inr (drop_col (''n'' @ w)
             (join_on k
               (where_rows (\<lambda>r. val_ge (cell r (''n'' @ w)) (IntV min_rating))
                 (withColumnRenamed (''count('' @ w @ '')'') (''n'' @ w) (groupBy_count k w self)))
               self))
      else Inl AnalysisException)"

text \<open>The guard of both rank-based splitters, \<^verbatim>\<open>fixed_test_sample == True & sample > min_rating\<close>.
  Python's \<^verbatim>\<open>&\<close> binds tighter than the comparisons, and the comparisons chain, so the
  condition is \<^verbatim>\<open>fixed_test_sample == (True & sample) and (True & sample) > min_rating\<close>,
  with \<^verbatim>\<open>True\<close> the integer 1.\<close>

definition sample_guard :: "bool \<Rightarrow> int \<Rightarrow> int \<Rightarrow> bool" where
  "sample_guard fixed_test_sample sample min_rating =
     (let b = 1 AND sample
      in (if fixed_test_sample then 1 else 0) = b \<and> min_rating < b)"

text \<open>\<^verbatim>\<open>bround(col('count') * ratio)\<close>, a double column; null where the count is null.
  The count is a long and the ratio a double literal, so the count is converted to a
  double and the two doubles are multiplied; \<^verbatim>\<open>bround\<close> rounds the product to an integer
  and gives it as a double.\<close>

definition split_point :: "rat \<Rightarrow> val \<Rightarrow> val" where
  "split_point ratio v =
     (case num_of v of
        None \<Rightarrow> Null
      | Some x \<Rightarrow> DoubleV (of_int (bround (double_times x ratio))))"

text \<open>\<^verbatim>\<open>stratified_split\<close>. The window \<^verbatim>\<open>Window.partitionBy(split_by_column).orderBy(rand())\<close>
  is written once, but \<^verbatim>\<open>rating_train\<close> and \<^verbatim>\<open>rating_test\<close> are two frames that each
  select \<^verbatim>\<open>row_number().over(window_spec)\<close>, and the engine evaluates each of them on its
  own: \<open>rand_train\<close> is the order in which the window puts the rows of a partition when
  \<^verbatim>\<open>rating_train\<close> is computed, \<open>rand_test\<close> the order when \<^verbatim>\<open>rating_test\<close> is computed, and
  nothing in the source makes the two agree. The filters on \<^verbatim>\<open>rank\<close>, \<^verbatim>\<open>count\<close> and
  \<^verbatim>\<open>splitPoint\<close> need these names to be unambiguous; Spark raises an
  \<^verbatim>\<open>AnalysisException\<close> otherwise.\<close>

definition stratified_split ::
  "(row list \<Rightarrow> row list) \<Rightarrow> (row list \<Rightarrow> row list) \<Rightarrow> dataframe \<Rightarrow> int \<Rightarrow> bool \<Rightarrow> rat \<Rightarrow> bool \<Rightarrow> int
     \<Rightarrow> outcome" where
  "stratified_split rand_train rand_test self min_rating by_customer ratio fixed_test_sample sample =
     (if sample_guard fixed_test_sample sample min_rating then Minus_One
      else
        let k = split_by_column by_customer; w = split_with_column by_customer in
        case min_rating_filter self min_rating by_customer of
          Inl e \<Rightarrow> Raised e
        | Inr rating_joined \<Rightarrow>
            let rating_grouped =
                  withColumnRenamed (''count('' @ w @ '')'') ''count'' (groupBy_count k w rating_joined)
            in
            if \<not> fixed_test_sample then
              (let joined = outer_join_on k rating_joined rating_grouped;
                   rating_all = withColumn ''splitPoint'' (\<lambda>r. split_point ratio (cell r ''count'')) joined;
                   ranked_train = select_row_number k rand_train ''rank'' rating_all;
                   ranked_test = select_row_number k rand_test ''rank'' rating_all
               in
               if resolvable (columns joined) ''count''
                  \<and> resolvable (columns ranked_train) ''rank''
                  \<and> resolvable (columns ranked_train) ''splitPoint''
                  \<and> resolvable (columns ranked_test) ''rank''
                  \<and> resolvable (columns ranked_test) ''splitPoint''
               then Split (where_rows (\<lambda>r. val_gt (cell r ''rank'') (cell r ''splitPoint'')) ranked_train)
                          (where_rows (\<lambda>r. val_le (cell r ''rank'') (cell r ''splitPoint'')) ranked_test)
               else Raised AnalysisException)
            else
              (let ranked_train = select_row_number k rand_train ''rank'' rating_joined;
                   ranked_test = select_row_number k rand_test ''rank'' rating_joined
               in
               if resolvable (columns ranked_train) ''rank'' \<and> resolvable (columns ranked_test) ''rank''
               then Split (where_rows (\<lambda>r. val_gt (cell r ''rank'') (IntV sample)) ranked_train)
                          (where_rows (\<lambda>r. val_le (cell r ''rank'') (IntV sample)) ranked_test)
               else Raised AnalysisException))"

text \<open>\<^verbatim>\<open>orderBy(col('timeStamp').desc())\<close>: latest first, nulls last. Rows with equal time
  stamps come in an order the engine chooses; here it is fixed by the order of the list,
  for \<^verbatim>\<open>rating_train\<close> and \<^verbatim>\<open>rating_test\<close> alike.\<close>

definition timeStamp_desc :: "row list \<Rightarrow> row list" where
  "timeStamp_desc rs = rev (sort_key (\<lambda>r. num_of (cell r ''timeStamp'')) rs)"

text \<open>\<^verbatim>\<open>chronological_split\<close>: the same steps with the count taken over \<^verbatim>\<open>timeStamp\<close>, the
  window ordered by time, and a final projection to three columns.\<close>

definition chronological_split ::
  "dataframe \<Rightarrow> int \<Rightarrow> bool \<Rightarrow> rat \<Rightarrow> bool \<Rightarrow> int \<Rightarrow> outcome" where
  "chronological_split self min_rating by_customer ratio fixed_test_sample sample =
     (if sample_guard fixed_test_sample sample min_rating then Minus_One
      else
        let k = split_by_column by_customer; w = split_with_column by_customer in
        case min_rating_filter self min_rating by_customer of
          Inl e \<Rightarrow> Raised e
        | Inr rating_joined \<Rightarrow>
            if resolvable (columns rating_joined) ''timeStamp'' then
              (let rating_grouped =
                     withColumnRenamed ''count(timeStamp)'' ''count''
                       (groupBy_count k ''timeStamp'' rating_joined)
               in
               if \<not> fixed_test_sample then
                 (let joined = outer_join_on k rating_joined rating_grouped;
                      rating_all = withColumn ''splitPoint'' (\<lambda>r. split_point ratio (cell r ''count'')) joined;
                      ranked = select_row_number k timeStamp_desc ''rank'' rating_all
                  in
                  if resolvable (columns joined) ''count'' \<and> resolvable (columns ranked) ''rank''
                     \<and> resolvable (columns ranked) ''splitPoint''
                  then Split (select_cols [k, w, ''timeStamp'']
                               (where_rows (\<lambda>r. val_gt (cell r ''rank'') (cell r ''splitPoint'')) ranked))
                             (select_cols [k, w, ''timeStamp'']
                               (where_rows (\<lambda>r. val_le (cell r ''rank'') (cell r ''splitPoint'')) ranked))
                  else Raised AnalysisException)
               else
                 (let ranked = select_row_number k timeStamp_desc ''rank'' rating_joined in
                  if resolvable (columns ranked) ''rank''
                  then Split (select_cols [k, w, ''timeStamp'']
                               (where_rows (\<lambda>r. val_gt (cell r ''rank'') (IntV sample)) ranked))
                             (select_cols [k, w, ''timeStamp'']
                               (where_rows (\<lambda>r. val_le (cell r ''rank'') (IntV sample)) ranked))
                  else Raised AnalysisException))
            else Raised AnalysisException)"

text \<open>\<^verbatim>\<open>non_overlapping_split\<close>: the grouping entities are numbered in a random order;
  \<^verbatim>\<open>rating_split[0]\<close> holds the entities numbered up to \<^verbatim>\<open>round(count * ratio)\<close> and is
  joined into \<^verbatim>\<open>rating_train\<close>, \<^verbatim>\<open>rating_split[1]\<close> holds the others and is joined into
  \<^verbatim>\<open>rating_test\<close>. The frame \<^verbatim>\<open>rating_tmp\<close> that carries the numbers is not cached, so it
  is computed once for each of the two: \<open>rand_train\<close> is the order of the window when
  \<^verbatim>\<open>rating_split[0]\<close> is computed and \<open>rand_test\<close> the order when \<^verbatim>\<open>rating_split[1]\<close> is.
  \<^verbatim>\<open>count\<close> is a Python int and \<^verbatim>\<open>count * ratio\<close> the product of two floats, which
  \<^verbatim>\<open>round\<close> turns into an int.\<close>

definition with_name :: "bool \<Rightarrow> string" where
  "with_name by_customer = (if by_customer then ''item'' else ''customer'')"

definition non_overlapping_split ::
  "(row list \<Rightarrow> row list) \<Rightarrow> (row list \<Rightarrow> row list) \<Rightarrow> dataframe \<Rightarrow> int \<Rightarrow> bool \<Rightarrow> rat \<Rightarrow> outcome" where
  "non_overlapping_split rand_train rand_test self min_rating by_customer ratio =
     (case min_rating_filter self min_rating by_customer of
        Inl e \<Rightarrow> Raised e
      | Inr rating_joined \<Rightarrow>
          let k = split_by_column by_customer; w = split_with_column by_customer;
              rating_exclusive =
                drop_col (''n'' @ with_name by_customer)
                  (withColumnRenamed (''count('' @ w @ '')'') (''n'' @ with_name by_customer)
                    (groupBy_count k w rating_joined));
              count = int (length (rows rating_exclusive));
              rating_tmp0 = select_row_number_all rand_train ''rowNumber'' rating_exclusive;
              rating_tmp1 = select_row_number_all rand_test ''rowNumber'' rating_exclusive;
              bound = IntV (bround (double_times (of_int count) ratio));
              rating_split0 =
                drop_col ''rowNumber'' (where_rows (\<lambda>r. val_le (cell r ''rowNumber'') bound) rating_tmp0);
              rating_split1 =
                drop_col ''rowNumber'' (where_rows (\<lambda>r. val_gt (cell r ''rowNumber'') bound) rating_tmp1)
          in Split (join_on k rating_joined rating_split0) (join_on k rating_joined rating_split1))"



section \<open>RankingTrainValidationSplit.py\<close>

text \<open>
  The estimator and the evaluator are collaborators of the module, taken as functions:
  \<open>fit_train p\<close> is \<^verbatim>\<open>est.fit(train, p)\<close>, \<open>metric_of m p\<close> is
  \<^verbatim>\<open>eva.evaluate(m.transform(validation, p))\<close> and \<open>fit_dataset p\<close> is
  \<^verbatim>\<open>est.fit(dataset, p)\<close>. Metrics are Python floats, kept as rationals.

  \<^verbatim>\<open>est.fitMultiple(train, epm)\<close> is an iterator shared by all tasks: under its lock
  each \<^verbatim>\<open>next\<close> takes the value of a counter as the index, advances the counter and
  fits the model for that index. The state of the iterator is the counter.
\<close>

type_synonym 'm trial = "nat \<times> rat \<times> 'm option"

definition singleTask ::
  "('p \<Rightarrow> 'm) \<Rightarrow> ('m \<Rightarrow> 'p \<Rightarrow> rat) \<Rightarrow> 'p list \<Rightarrow> bool \<Rightarrow> nat \<Rightarrow> 'm trial \<times> nat" where
  "singleTask fit_train metric_of epm collectSubModel counter =
     (let index = counter;
          model = fit_train (epm ! index);
          metric = metric_of model (epm ! index)
      in ((index, metric, if collectSubModel then Some model else None), Suc counter))"

text \<open>\<^verbatim>\<open>return [singleTask] * len(epm)\<close>\<close>

definition parallelFitTasks ::
  "('p \<Rightarrow> 'm) \<Rightarrow> ('m \<Rightarrow> 'p \<Rightarrow> rat) \<Rightarrow> 'p list \<Rightarrow> bool \<Rightarrow> (nat \<Rightarrow> 'm trial \<times> nat) list" where
  "parallelFitTasks fit_train metric_of epm collectSubModel =
     replicate (length epm) (singleTask fit_train metric_of epm collectSubModel)"

text \<open>The pool calls the tasks; each call draws from the iterator, so the \<open>i\<close>-th draw
  gets index \<open>i\<close>. \<^verbatim>\<open>imap_unordered\<close> then yields the results in the order in which the
  tasks complete: \<open>completion\<close> lists the draws in that order.\<close>

fun run_tasks :: "(nat \<Rightarrow> 'r \<times> nat) list \<Rightarrow> nat \<Rightarrow> 'r list" where
  "run_tasks [] counter = []"
| "run_tasks (t # ts) counter = (case t counter of (r, counter') \<Rightarrow> r # run_tasks ts counter')"

definition imap_unordered :: "nat list \<Rightarrow> (nat \<Rightarrow> 'r \<times> nat) list \<Rightarrow> 'r list" where
  "imap_unordered completion tasks = map (\<lambda>i. run_tasks tasks 0 ! i) completion"

text \<open>The loop \<^verbatim>\<open>for j, metric, subModel in pool.imap_unordered(...)\<close>. A slot that is
  not written holds \<^verbatim>\<open>None\<close>; an index outside the list raises \<^verbatim>\<open>IndexError\<close>.\<close>

fun collect_loop ::
  "bool \<Rightarrow> 'm trial list \<Rightarrow> rat option list \<times> 'm option list option
     \<Rightarrow> error + rat option list \<times> 'm option list option" where
  "collect_loop collectSubModelsParam [] st = Inr st"
| "collect_loop collectSubModelsParam ((j, metric, subModel) # rest) (metrics, subModels) =
     (if length metrics \<le> j then Inl IndexError
      else if collectSubModelsParam
      then (case subModels of
              None \<Rightarrow> Inl TypeError
            | Some sm \<Rightarrow>
                if length sm \<le> j then Inl IndexError
                else collect_loop collectSubModelsParam rest
                       (metrics[j := Some metric], Some (sm[j := subModel])))
      else collect_loop collectSubModelsParam rest (metrics[j := Some metric], subModels))"

text \<open>\<^verbatim>\<open>np.argmax\<close> and \<^verbatim>\<open>np.argmin\<close> scan the array once and keep the position of the
  first strictly better entry. An empty array raises \<^verbatim>\<open>ValueError\<close>, an entry
  \<^verbatim>\<open>None\<close> cannot be compared and raises \<^verbatim>\<open>TypeError\<close>.\<close>

fun argmax_loop :: "rat list \<Rightarrow> nat \<Rightarrow> nat \<Rightarrow> rat \<Rightarrow> nat" where
  "argmax_loop [] i best_i best = best_i"
| "argmax_loop (x # xs) i best_i best =
     (if best < x then argmax_loop xs (Suc i) i x else argmax_loop xs (Suc i) best_i best)"

fun argmin_loop :: "rat list \<Rightarrow> nat \<Rightarrow> nat \<Rightarrow> rat \<Rightarrow> nat" where
  "argmin_loop [] i best_i best = best_i"
| "argmin_loop (x # xs) i best_i best =
     (if x < best then argmin_loop xs (Suc i) i x else argmin_loop xs (Suc i) best_i best)"

definition np_argmax :: "rat option list \<Rightarrow> error + nat" where
  "np_argmax metrics =
     (if None \<in> set metrics then Inl TypeError
      else case map the metrics of [] \<Rightarrow> Inl ValueError | x # xs \<Rightarrow> Inr (argmax_loop xs 1 0 x))"

definition np_argmin :: "rat option list \<Rightarrow> error + nat" where
  "np_argmin metrics =
     (if None \<in> set metrics then Inl TypeError
      else case map the metrics of [] \<Rightarrow> Inl ValueError | x # xs \<Rightarrow> Inr (argmin_loop xs 1 0 x))"

record 'm RankingTrainValidationSplitModel =
  bestModel :: 'm
  validationMetrics :: "rat option list"
  subModels :: "'m option list option"

text \<open>\<^verbatim>\<open>RankingTrainValidationSplit._fit\<close> from the task list on.
  \<^verbatim>\<open>ThreadPool(processes=0)\<close> raises \<^verbatim>\<open>ValueError\<close>.\<close>

definition bestIndex_of :: "bool \<Rightarrow> rat option list \<Rightarrow> error + nat" where
  "bestIndex_of isLargerBetter metrics =
     (if isLargerBetter then np_argmax metrics else np_argmin metrics)"

definition RankingTrainValidationSplit_fit ::
  "('p \<Rightarrow> 'm) \<Rightarrow> ('m \<Rightarrow> 'p \<Rightarrow> rat) \<Rightarrow> ('p \<Rightarrow> 'm) \<Rightarrow> bool \<Rightarrow> int \<Rightarrow> bool \<Rightarrow> nat list \<Rightarrow> 'p list
     \<Rightarrow> error + 'm RankingTrainValidationSplitModel" where
  "RankingTrainValidationSplit_fit fit_train metric_of fit_dataset isLargerBetter parallelism
       collectSubModelsParam completion epm =
     (let numModels = length epm;
          subModels0 = (if collectSubModelsParam then Some (replicate numModels None) else None);
          tasks = parallelFitTasks fit_train metric_of epm collectSubModelsParam
      in
      if min parallelism (int numModels) < 1 then Inl ValueError
      else
        case collect_loop collectSubModelsParam (imap_unordered completion tasks)
               (replicate numModels None, subModels0) of
          Inl e \<Rightarrow> Inl e
        | Inr (metrics, subModels1) \<Rightarrow>
            (case bestIndex_of isLargerBetter metrics of
               Inl e \<Rightarrow> Inl e
             | Inr bestIndex \<Rightarrow>
                 Inr \<lparr>bestModel = fit_dataset (epm ! bestIndex),
                      validationMetrics = metrics, subModels = subModels1\<rparr>))"

text \<open>The selection rule in the words of the specification: the chosen index attains the
  best metric, and no earlier index does.\<close>

definition first_argmax :: "rat list \<Rightarrow> nat \<Rightarrow> bool" where
  "first_argmax xs i =
     (i < length xs \<and> (\<forall>j < length xs. xs ! j \<le> xs ! i) \<and> (\<forall>j < i. xs ! j < xs ! i))"

definition first_argmin :: "rat list \<Rightarrow> nat \<Rightarrow> bool" where
  "first_argmin xs i =
     (i < length xs \<and> (\<forall>j < length xs. xs ! i \<le> xs ! j) \<and> (\<forall>j < i. xs ! i < xs ! j))"

section \<open>Notions used to state the properties\<close>

text \<open>A frame is well formed when every row has exactly the columns of the schema, in
  the schema's order.\<close>

definition wf_frame :: "dataframe \<Rightarrow> bool" where
  "wf_frame df = (\<forall>r \<in> set (rows df). map fst r = columns df)"

text \<open>The group of a key is retained by \<^verbatim>\<open>min_rating_filter\<close> when the key is not null and
  the group's count reaches \<^verbatim>\<open>min_rating\<close>.\<close>

definition retained :: "string \<Rightarrow> string \<Rightarrow> row list \<Rightarrow> int \<Rightarrow> val \<Rightarrow> bool" where
  "retained k w rs min_rating g = (g \<noteq> Null \<and> min_rating \<le> int (count_in_group k w rs g))"

text \<open>A row as it leaves \<^verbatim>\<open>min_rating_filter\<close>: the join puts the grouping column first
  and \<^verbatim>\<open>drop\<close> removes a column that has the name of the dropped count.\<close>

definition filtered_row :: "string \<Rightarrow> string \<Rightarrow> row \<Rightarrow> row" where
  "filtered_row k nw r = (k, cell r k) # AList.delete nw (AList.delete k r)"

text \<open>What the loop leaves in a result list that started as \<open>xs\<close>, when the trials
  with the indices \<open>js\<close> have been written: slot \<open>i\<close> holds the result of trial \<open>i\<close>
  when \<open>i\<close> is among them and its old content otherwise.\<close>

definition written :: "(nat \<Rightarrow> 'a) \<Rightarrow> nat list \<Rightarrow> 'a option list \<Rightarrow> 'a option list" where
  "written f js xs = map (\<lambda>i. if i \<in> set js then Some (f i) else xs ! i) [0..<length xs]"

text \<open>The wording of the specification for the filter: the support of a grouping key
  is the number of distinct counterpart entities that occur with it, and a record stays when
  the support of its key reaches the minimum.\<close>

definition distinct_support :: "string \<Rightarrow> string \<Rightarrow> row list \<Rightarrow> val \<Rightarrow> nat" where
  "distinct_support k w rs g =
     length (remdups (filter (\<lambda>v. v \<noteq> Null) (map (\<lambda>r. cell r w) (partition_of k rs g))))"

definition distinct_support_filter :: "dataframe \<Rightarrow> int \<Rightarrow> bool \<Rightarrow> row list" where
  "distinct_support_filter self min_rating by_customer =
     filter (\<lambda>r. min_rating \<le> int (distinct_support (split_by_column by_customer)
                 (split_with_column by_customer) (rows self) (cell r (split_by_column by_customer))))
       (rows self)"

text \<open>Two small frames of ratings: in the first, customer 1 has two records and
  customer 2 has one; in the second, customer 1 rated the same item twice.\<close>

definition three_ratings :: dataframe where
  "three_ratings =
     \<lparr>columns = [''itemID'', ''customerID'', ''rating''],
      rows = [[(''itemID'', IntV 5), (''customerID'', IntV 1), (''rating'', IntV 3)],
              [(''itemID'', IntV 7), (''customerID'', IntV 2), (''rating'', IntV 1)],
              [(''itemID'', IntV 6), (''customerID'', IntV 1), (''rating'', IntV 4)]]\<rparr>"

definition two_ratings :: dataframe where
  "two_ratings =
     \<lparr>columns = [''customerID'', ''itemID'', ''rating''],
      rows = [[(''customerID'', IntV 1), (''itemID'', IntV 5), (''rating'', IntV 3)],
              [(''customerID'', IntV 1), (''itemID'', IntV 5), (''rating'', IntV 4)]]\<rparr>"

text \<open>The steps that \<^verbatim>\<open>stratified_split\<close> and \<^verbatim>\<open>chronological_split\<close> share, from
  \<^verbatim>\<open>rating_grouped\<close> to the two filters on \<^verbatim>\<open>rank\<close>, for one evaluation of the window:
  \<open>ord\<close> is the order of the window and \<open>c\<close> the column that is counted. After the guard
  and the filter, \<^verbatim>\<open>chronological_split\<close> is this function, and \<^verbatim>\<open>stratified_split\<close> takes
  its train frame from this function at \<open>rand_train\<close> and its test frame from this function
  at \<open>rand_test\<close> (lemmas \<open>stratified_split_rank_split\<close> and
  \<open>chronological_split_rank_split\<close>).\<close>

definition rank_split ::
  "(row list \<Rightarrow> row list) \<Rightarrow> string \<Rightarrow> string \<Rightarrow> dataframe \<Rightarrow> rat \<Rightarrow> bool \<Rightarrow> int
     \<Rightarrow> error + dataframe \<times> dataframe" where
  "rank_split ord k c rating_joined ratio fixed_test_sample sample =
     (let rating_grouped =
            withColumnRenamed (''count('' @ c @ '')'') ''count'' (groupBy_count k c rating_joined)
      in
      if \<not> fixed_test_sample then
        (let joined = outer_join_on k rating_joined rating_grouped;
             rating_all = withColumn ''splitPoint'' (\<lambda>r. split_point ratio (cell r ''count'')) joined;
             ranked = select_row_number k ord ''rank'' rating_all
         in
         if resolvable (columns joined) ''count'' \<and> resolvable (columns ranked) ''rank''
            \<and> resolvable (columns ranked) ''splitPoint''
         then Inr (where_rows (\<lambda>r. val_gt (cell r ''rank'') (cell r ''splitPoint'')) ranked,
                   where_rows (\<lambda>r. val_le (cell r ''rank'') (cell r ''splitPoint'')) ranked)
         else Inl AnalysisException)
      else
        (let ranked = select_row_number k ord ''rank'' rating_joined in
         if resolvable (columns ranked) ''rank''
         then Inr (where_rows (\<lambda>r. val_gt (cell r ''rank'') (IntV sample)) ranked,
                   where_rows (\<lambda>r. val_le (cell r ''rank'') (IntV sample)) ranked)
         else Inl AnalysisException))"

text \<open>A row of \<^verbatim>\<open>rating_all\<close>: the count of its group is appended as \<^verbatim>\<open>count\<close> and the
  rounded product with the ratio is stored as \<^verbatim>\<open>splitPoint\<close>.\<close>

definition with_count :: "string \<Rightarrow> string \<Rightarrow> rat \<Rightarrow> row list \<Rightarrow> row \<Rightarrow> row" where
  "with_count k c ratio rs l =
     AList.update ''splitPoint''
       (split_point ratio (IntV (int (count_in_group k c rs (cell l k)))))
       (l @ [(''count'', IntV (int (count_in_group k c rs (cell l k))))])"

text \<open>The highest rank that goes to the test set, in a group whose count is \<open>n\<close>.\<close>

definition held_out :: "bool \<Rightarrow> rat \<Rightarrow> int \<Rightarrow> nat \<Rightarrow> nat" where
  "held_out fixed_test_sample ratio sample n =
     (if fixed_test_sample then nat sample else nat (bround (double_times (of_nat n) ratio)))"

text \<open>The rows of one group in the order of the window, with their ranks.\<close>

definition ranked_block ::
  "(row list \<Rightarrow> row list) \<Rightarrow> bool \<Rightarrow> string \<Rightarrow> string \<Rightarrow> rat \<Rightarrow> row list \<Rightarrow> val \<Rightarrow> row list" where
  "ranked_block ord fixed_test_sample k c ratio rs g =
     number_from ''rank'' 1
       (ord (map (if fixed_test_sample then (\<lambda>l. l) else with_count k c ratio rs) (partition_of k rs g)))"

text \<open>One customer with seven ratings at increasing times, and four customers with one
  rating each.\<close>

definition seven_ratings :: dataframe where
  "seven_ratings =
     \<lparr>columns = [''customerID'', ''itemID'', ''rating'', ''timeStamp''],
      rows = map (\<lambda>i. [(''customerID'', IntV 1), (''itemID'', IntV i), (''rating'', IntV 5),
                       (''timeStamp'', IntV (100 + i))]) [1, 2, 3, 4, 5, 6, 7]\<rparr>"

definition four_customers :: dataframe where
  "four_customers =
     \<lparr>columns = [''customerID'', ''itemID'', ''rating''],
      rows = map (\<lambda>i. [(''customerID'', IntV i), (''itemID'', IntV 9), (''rating'', IntV 5)])
               [1, 2, 3, 4]\<rparr>"

text \<open>The two rank-based splitters side by side: the order of the window when
  \<^verbatim>\<open>rating_train\<close> is computed and when \<^verbatim>\<open>rating_test\<close> is computed, the column whose non-null
  cells are counted for the split point, and the row each one returns
  (\<^verbatim>\<open>chronological_split\<close> projects to three columns).\<close>

datatype splitter = Stratified "row list \<Rightarrow> row list" "row list \<Rightarrow> row list" | Chronological

fun rank_based_split :: "splitter \<Rightarrow> dataframe \<Rightarrow> int \<Rightarrow> bool \<Rightarrow> rat \<Rightarrow> bool \<Rightarrow> int \<Rightarrow> outcome" where
  "rank_based_split (Stratified rand_train rand_test) = stratified_split rand_train rand_test"
| "rank_based_split Chronological = chronological_split"

fun train_window :: "splitter \<Rightarrow> row list \<Rightarrow> row list" where
  "train_window (Stratified rand_train rand_test) = rand_train"
| "train_window Chronological = timeStamp_desc"

fun test_window :: "splitter \<Rightarrow> row list \<Rightarrow> row list" where
  "test_window (Stratified rand_train rand_test) = rand_test"
| "test_window Chronological = timeStamp_desc"

fun counted_column :: "splitter \<Rightarrow> bool \<Rightarrow> string" where
  "counted_column (Stratified rand_train rand_test) by_customer = split_with_column by_customer"
| "counted_column Chronological by_customer = ''timeStamp''"

text \<open>The number of records of a grouping entity in a frame.\<close>

definition group_size :: "string \<Rightarrow> dataframe \<Rightarrow> val \<Rightarrow> nat" where
  "group_size k df g = length (partition_of k (rows df) g)"

definition three_columns :: "bool \<Rightarrow> row \<Rightarrow> row" where
  "three_columns by_customer r =
     map (\<lambda>c. (c, cell r c)) [split_by_column by_customer, split_with_column by_customer, ''timeStamp'']"

fun returned_row :: "splitter \<Rightarrow> bool \<Rightarrow> row \<Rightarrow> row" where
  "returned_row (Stratified rand_train rand_test) by_customer r = r"
| "returned_row Chronological by_customer r = three_columns by_customer r"



text \<open>A customer who rated the same item twice at the same time, with two ratings.\<close>

definition rated_twice :: dataframe where
  "rated_twice =
     \<lparr>columns = [''customerID'', ''itemID'', ''rating'', ''timeStamp''],
      rows = [[(''customerID'', IntV 1), (''itemID'', IntV 5), (''rating'', IntV 3), (''timeStamp'', IntV 9)],
              [(''customerID'', IntV 1), (''itemID'', IntV 5), (''rating'', IntV 4), (''timeStamp'', IntV 9)]]\<rparr>"


definition two_undated :: dataframe where
  "two_undated =
     \<lparr>columns = [''customerID'', ''itemID'', ''timeStamp''],
      rows = [[(''customerID'', IntV 1), (''itemID'', IntV 5), (''timeStamp'', IntV 10)],
              [(''customerID'', IntV 1), (''itemID'', IntV 6), (''timeStamp'', Null)],
              [(''customerID'', IntV 1), (''itemID'', IntV 7), (''timeStamp'', IntV 20)],
              [(''customerID'', IntV 1), (''itemID'', IntV 8), (''timeStamp'', Null)]]\<rparr>"

text \<open>Rounding in the words of the specification: \<open>h\<close> is an integer nearest to \<open>p\<close>, and
  the even one when \<open>p\<close> lies halfway between two integers.\<close>

definition rounds_to :: "rat \<Rightarrow> int \<Rightarrow> bool" where
  "rounds_to p h = (\<bar>of_int h - p\<bar> \<le> 1 / 2 \<and> (\<bar>of_int h - p\<bar> = 1 / 2 \<longrightarrow> even h))"

section \<open>Model selection: the chosen index\<close>

lemma first_argmax_step:
  assumes "i < length ys" "first_argmax (take i ys) b"
  shows "first_argmax (take (Suc i) ys) (if ys ! b < ys ! i then i else b)"
proof -
  from assms have b: "b < i" and le: "\<forall>j<i. ys ! j \<le> ys ! b" and lt: "\<forall>j<b. ys ! j < ys ! b"
    by (auto simp: first_argmax_def)
  show ?thesis
  proof (cases "ys ! b < ys ! i")
    case True
    have "\<forall>j<i. ys ! j < ys ! i" using le True by (meson le_less_trans)
    with True assms(1) show ?thesis
      by (auto simp: first_argmax_def less_Suc_eq)
  next
    case False
    with assms(1) b le lt show ?thesis
      by (auto simp: first_argmax_def less_Suc_eq)
  qed
qed

lemma argmax_loop_first:
  "i \<le> length ys \<Longrightarrow> first_argmax (take i ys) b \<Longrightarrow>
     first_argmax ys (argmax_loop (drop i ys) i b (ys ! b))"
proof (induction "length ys - i" arbitrary: i b)
  case 0
  then show ?case by simp
next
  case (Suc n)
  then have i: "i < length ys" by simp
  have step: "first_argmax (take (Suc i) ys) (if ys ! b < ys ! i then i else b)"
    using first_argmax_step [OF i Suc.prems(2)] .
  have "n = length ys - Suc i" using Suc.hyps(2) by simp
  from Suc.hyps(1) [OF this _ step] i
  have "first_argmax ys (argmax_loop (drop (Suc i) ys) (Suc i)
          (if ys ! b < ys ! i then i else b) (ys ! (if ys ! b < ys ! i then i else b)))"
    by simp
  then show ?case
    by (cases "ys ! b < ys ! i") (simp_all add: Cons_nth_drop_Suc [OF i, symmetric])
qed

lemma first_argmin_step:
  assumes "i < length ys" "first_argmin (take i ys) b"
  shows "first_argmin (take (Suc i) ys) (if ys ! i < ys ! b then i else b)"
proof -
  from assms have b: "b < i" and le: "\<forall>j<i. ys ! b \<le> ys ! j" and lt: "\<forall>j<b. ys ! b < ys ! j"
    by (auto simp: first_argmin_def)
  show ?thesis
  proof (cases "ys ! i < ys ! b")
    case True
    have "\<forall>j<i. ys ! i < ys ! j" using le True by (meson less_le_trans)
    with True assms(1) show ?thesis
      by (auto simp: first_argmin_def less_Suc_eq)
  next
    case False
    with assms(1) b le lt show ?thesis
      by (auto simp: first_argmin_def less_Suc_eq)
  qed
qed

lemma argmin_loop_first:
  "i \<le> length ys \<Longrightarrow> first_argmin (take i ys) b \<Longrightarrow>
     first_argmin ys (argmin_loop (drop i ys) i b (ys ! b))"
proof (induction "length ys - i" arbitrary: i b)
  case 0
  then show ?case by simp
next
  case (Suc n)
  then have i: "i < length ys" by simp
  have step: "first_argmin (take (Suc i) ys) (if ys ! i < ys ! b then i else b)"
    using first_argmin_step [OF i Suc.prems(2)] .
  have "n = length ys - Suc i" using Suc.hyps(2) by simp
  from Suc.hyps(1) [OF this _ step] i
  have "first_argmin ys (argmin_loop (drop (Suc i) ys) (Suc i)
          (if ys ! i < ys ! b then i else b) (ys ! (if ys ! i < ys ! b then i else b)))"
    by simp
  then show ?case
    by (cases "ys ! i < ys ! b") (simp_all add: Cons_nth_drop_Suc [OF i, symmetric])
qed

lemma np_argmax_first:
  assumes "np_argmax metrics = Inr i"
  shows "first_argmax (map the metrics) i"
proof -
  from assms obtain x xs where m: "map the metrics = x # xs" and i: "i = argmax_loop xs 1 0 x"
    by (auto simp: np_argmax_def split: if_splits list.splits)
  have "first_argmax (x # xs) (argmax_loop (drop (Suc 0) (x # xs)) (Suc 0) 0 ((x # xs) ! 0))"
    by (rule argmax_loop_first) (simp_all add: first_argmax_def)
  with m i show ?thesis by simp
qed

lemma np_argmin_first:
  assumes "np_argmin metrics = Inr i"
  shows "first_argmin (map the metrics) i"
proof -
  from assms obtain x xs where m: "map the metrics = x # xs" and i: "i = argmin_loop xs 1 0 x"
    by (auto simp: np_argmin_def split: if_splits list.splits)
  have "first_argmin (x # xs) (argmin_loop (drop (Suc 0) (x # xs)) (Suc 0) 0 ((x # xs) ! 0))"
    by (rule argmin_loop_first) (simp_all add: first_argmin_def)
  with m i show ?thesis by simp
qed

lemma first_argmax_unique: "first_argmax xs i \<Longrightarrow> first_argmax xs j \<Longrightarrow> i = j"
  unfolding first_argmax_def by (metis linorder_neqE_nat not_less)

lemma first_argmin_unique: "first_argmin xs i \<Longrightarrow> first_argmin xs j \<Longrightarrow> i = j"
  unfolding first_argmin_def by (metis linorder_neqE_nat not_less)

lemma collect_loop_length:
  "collect_loop c ts (ms, sm) = Inr (ms', sm') \<Longrightarrow> length ms' = length ms"
proof (induction ts arbitrary: ms sm)
  case Nil
  then show ?case by simp
next
  case (Cons t ts)
  obtain j metric subModel where t: "t = (j, metric, subModel)" by (cases t) auto
  from Cons.prems have j: "j < length ms"
    unfolding t by (simp split: if_splits)
  show ?case
  proof (cases c)
    case True
    with Cons.prems j obtain x where "sm = Some x"
      unfolding t by (cases sm) simp_all
    with Cons.prems j True
    have "collect_loop c ts (ms[j := Some metric], Some (x[j := subModel])) = Inr (ms', sm')"
      unfolding t by (simp split: if_splits)
    from Cons.IH [OF this] show ?thesis by simp
  next
    case False
    with Cons.prems j
    have "collect_loop c ts (ms[j := Some metric], sm) = Inr (ms', sm')"
      unfolding t by simp
    from Cons.IH [OF this] show ?thesis by simp
  qed
qed

text \<open>
  Claim C7. Whenever \<^verbatim>\<open>_fit\<close> returns, the index it selected is the first-occurrence
  argmax of the metric array when the evaluator's \<^verbatim>\<open>isLargerBetter()\<close> is true and the
  first-occurrence argmin otherwise: it attains the best metric, no lower index does, and
  it is the only index with these two properties. The returned best model is the refit
  \<^verbatim>\<open>est.fit(dataset, epm[bestIndex])\<close> with the configuration at that index. The
  witness runs the example of the specification: metrics \<open>[0.5, 0.9, 0.9]\<close> with larger
  is better select index 1.
\<close>

theorem selected_index_first_best:
  assumes "RankingTrainValidationSplit_fit fit_train metric_of fit_dataset isLargerBetter parallelism
             collectSubModelsParam completion epm = Inr res"
  shows "\<exists>i. bestIndex_of isLargerBetter (validationMetrics res) = Inr i
           \<and> i < length epm
           \<and> (if isLargerBetter then first_argmax (map the (validationMetrics res)) i
               else first_argmin (map the (validationMetrics res)) i)
           \<and> (\<forall>j. (if isLargerBetter then first_argmax (map the (validationMetrics res)) j
               else first_argmin (map the (validationMetrics res)) j) \<longrightarrow> j = i)
           \<and> bestModel res = fit_dataset (epm ! i)"
proof -
  define looped where "looped = collect_loop collectSubModelsParam
             (imap_unordered completion (parallelFitTasks fit_train metric_of epm collectSubModelsParam))
             (replicate (length epm) None,
              if collectSubModelsParam then Some (replicate (length epm) None) else None)"
  have fit: "RankingTrainValidationSplit_fit fit_train metric_of fit_dataset isLargerBetter parallelism
             collectSubModelsParam completion epm =
      (if min parallelism (int (length epm)) < 1 then Inl ValueError
       else case looped of Inl e \<Rightarrow> Inl e
         | Inr (metrics, subModels1) \<Rightarrow>
            (case bestIndex_of isLargerBetter metrics of
               Inl e \<Rightarrow> Inl e
             | Inr bestIndex \<Rightarrow>
                 Inr \<lparr>bestModel = fit_dataset (epm ! bestIndex),
                      validationMetrics = metrics, subModels = subModels1\<rparr>))"
    by (simp only: RankingTrainValidationSplit_fit_def Let_def looped_def)
  from assms fit obtain metrics sm where loop: "looped = Inr (metrics, sm)"
    by (cases looped) (auto split: if_splits)
  from assms fit loop obtain i where best: "bestIndex_of isLargerBetter metrics = Inr i"
    by (cases "bestIndex_of isLargerBetter metrics") (auto split: if_splits)
  from assms fit loop best
  have res: "res = \<lparr>bestModel = fit_dataset (epm ! i), validationMetrics = metrics, subModels = sm\<rparr>"
    by (auto split: if_splits)
  have vm: "validationMetrics res = metrics" using res by simp
  have bm: "bestModel res = fit_dataset (epm ! i)" using res by simp
  have len: "length metrics = length epm"
    using collect_loop_length [OF loop [unfolded looped_def]] by simp
  have sel: "if isLargerBetter then first_argmax (map the metrics) i
             else first_argmin (map the metrics) i"
    using best np_argmax_first [of metrics i] np_argmin_first [of metrics i]
    by (simp add: bestIndex_of_def split: if_splits)
  have bound: "i < length epm"
    using sel len by (simp add: first_argmax_def first_argmin_def split: if_splits)
  have uniq: "(if isLargerBetter then first_argmax (map the metrics) j
               else first_argmin (map the metrics) j) \<longrightarrow> j = i" for j
    using sel first_argmax_unique [of "map the metrics" j i]
      first_argmin_unique [of "map the metrics" j i]
    by (cases isLargerBetter) simp_all
  show ?thesis
    unfolding vm
  proof (intro exI conjI allI)
    show "bestIndex_of isLargerBetter metrics = Inr i" by (rule best)
    show "i < length epm" by (rule bound)
    show "if isLargerBetter then first_argmax (map the metrics) i
          else first_argmin (map the metrics) i" by (rule sel)
    show "(if isLargerBetter then first_argmax (map the metrics) j
               else first_argmin (map the metrics) j) \<longrightarrow> j = i" for j by (rule uniq)
    show "bestModel res = fit_dataset (epm ! i)" by (rule bm)
  qed
qed

theorem selected_index_first_best_witness:
  "RankingTrainValidationSplit_fit (\<lambda>p. p) (\<lambda>m p. [1 / 2, 9 / 10, 9 / 10] ! p) (\<lambda>p. p + 100) True 2
      False [2, 0, Suc 0] [0, Suc 0, 2]
     = Inr \<lparr>bestModel = 101, validationMetrics = [Some (1 / 2), Some (9 / 10), Some (9 / 10)],
            subModels = None\<rparr>
   \<and> bestIndex_of True [Some (1 / 2), Some (9 / 10), Some (9 / 10)] = Inr 1
   \<and> first_argmax [1 / 2, 9 / 10, 9 / 10] 1"
proof -
  have r: "RankingTrainValidationSplit_fit (\<lambda>p. p) (\<lambda>m p. [1 / 2, 9 / 10, 9 / 10] ! p) (\<lambda>p. p + 100) True 2
      False [2, 0, Suc 0] [0, Suc 0, 2]
     = Inr \<lparr>bestModel = 101, validationMetrics = [Some (1 / 2), Some (9 / 10), Some (9 / 10)],
            subModels = None\<rparr>"
    by (simp add: RankingTrainValidationSplit_fit_def parallelFitTasks_def imap_unordered_def
          singleTask_def bestIndex_of_def np_argmax_def numeral_2_eq_2 numeral_3_eq_3)
  have b: "bestIndex_of True [Some (1 / 2), Some (9 / 10), Some (9 / 10)] = Inr 1"
    by (simp add: bestIndex_of_def np_argmax_def)
  from selected_index_first_best [OF r] obtain i where
    "bestIndex_of True [Some (1 / 2), Some (9 / 10), Some (9 / 10)] = Inr i"
    "first_argmax (map the [Some (1 / 2), Some (9 / 10), Some (9 / 10)]) i"
    by auto
  with b have "first_argmax [1 / 2, 9 / 10, 9 / 10] 1" by simp
  with r b show ?thesis by (simp only: simp_thms)
qed

section \<open>The parallel trial runner\<close>

lemma run_tasks_replicate:
  "run_tasks (replicate n (singleTask ft mo epm c)) k =
     map (\<lambda>i. (i, mo (ft (epm ! i)) (epm ! i), if c then Some (ft (epm ! i)) else None)) [k..<k + n]"
proof (induction n arbitrary: k)
  case 0
  then show ?case by simp
next
  case (Suc n)
  have t: "singleTask ft mo epm c k =
      ((k, mo (ft (epm ! k)) (epm ! k), if c then Some (ft (epm ! k)) else None), Suc k)"
    by (simp add: singleTask_def Let_def)
  have "[k..<k + Suc n] = k # [Suc k..<Suc k + n]"
    by (simp add: upt_conv_Cons)
  then show ?case
    by (simp add: t Suc.IH del: upt_Suc)
qed

lemma imap_unordered_tasks:
  assumes "set completion \<subseteq> {..<length epm}"
  shows "imap_unordered completion (parallelFitTasks ft mo epm c) =
     map (\<lambda>i. (i, mo (ft (epm ! i)) (epm ! i), if c then Some (ft (epm ! i)) else None)) completion"
  using assms
  by (auto simp: imap_unordered_def parallelFitTasks_def run_tasks_replicate)

lemma written_Cons:
  "j < length xs \<Longrightarrow> written f js (xs[j := Some (f j)]) = written f (j # js) xs"
  by (auto simp: written_def nth_list_update)

lemma written_Nil: "written f [] xs = xs"
  by (simp add: written_def map_nth)

lemma length_written: "length (written f js xs) = length xs"
  by (simp add: written_def)

lemma collect_loop_no_sub:
  "set js \<subseteq> {..<length ms} \<Longrightarrow>
   collect_loop False (map (\<lambda>i. (i, f i, None)) js) (ms, None) = Inr (written f js ms, None)"
proof (induction js arbitrary: ms)
  case Nil
  then show ?case by (simp add: written_Nil)
next
  case (Cons j js)
  then have j: "j < length ms" and js: "set js \<subseteq> {..<length (ms[j := Some (f j)])}"
    by auto
  show ?case
    using j Cons.IH [OF js] 
    by (simp add: written_Cons)
qed

lemma collect_loop_sub:
  "set js \<subseteq> {..<length ms} \<Longrightarrow> length sm = length ms \<Longrightarrow>
   collect_loop True (map (\<lambda>i. (i, f i, Some (g i))) js) (ms, Some sm)
     = Inr (written f js ms, Some (written g js sm))"
proof (induction js arbitrary: ms sm)
  case Nil
  then show ?case by (simp add: written_Nil)
next
  case (Cons j js)
  then have j: "j < length ms" "j < length sm"
    and js: "set js \<subseteq> {..<length (ms[j := Some (f j)])}"
    and len: "length (sm[j := Some (g j)]) = length (ms[j := Some (f j)])"
    by auto
  show ?case
    using j Cons.IH [OF js len] by (simp add: written_Cons)
qed

lemma written_all:
  "set js = {..<n} \<Longrightarrow> written f js (replicate n None) = map (\<lambda>i. Some (f i)) [0..<n]"
  by (simp add: written_def)

lemma collect_loop_tasks:
  assumes "set completion = {..<length epm}"
  shows "collect_loop c (imap_unordered completion (parallelFitTasks ft mo epm c))
           (replicate (length epm) None, if c then Some (replicate (length epm) None) else None)
         = Inr (map (\<lambda>i. Some (mo (ft (epm ! i)) (epm ! i))) [0..<length epm],
                if c then Some (map (\<lambda>i. Some (ft (epm ! i))) [0..<length epm]) else None)"
proof -
  let ?n = "length epm"
  have sub: "set completion \<subseteq> {..<length (replicate ?n (None :: rat option))}"
    using assms by simp
  show ?thesis
  proof (cases c)
    case True
    have im: "imap_unordered completion (parallelFitTasks ft mo epm True)
        = map (\<lambda>i. (i, mo (ft (epm ! i)) (epm ! i), Some (ft (epm ! i)))) completion"
      using imap_unordered_tasks [of completion epm ft mo True] assms by simp
    have "collect_loop True (imap_unordered completion (parallelFitTasks ft mo epm True))
           (replicate ?n None, Some (replicate ?n None))
         = Inr (written (\<lambda>i. mo (ft (epm ! i)) (epm ! i)) completion (replicate ?n None),
                Some (written (\<lambda>i. ft (epm ! i)) completion (replicate ?n None)))"
      unfolding im by (rule collect_loop_sub [OF sub]) simp
    then show ?thesis
      using True by (simp add: written_all [OF assms])
  next
    case False
    have im: "imap_unordered completion (parallelFitTasks ft mo epm False)
        = map (\<lambda>i. (i, mo (ft (epm ! i)) (epm ! i), None)) completion"
      using imap_unordered_tasks [of completion epm ft mo False] assms by simp
    have "collect_loop False (imap_unordered completion (parallelFitTasks ft mo epm False))
           (replicate ?n None, None)
         = Inr (written (\<lambda>i. mo (ft (epm ! i)) (epm ! i)) completion (replicate ?n None), None)"
      unfolding im by (rule collect_loop_no_sub [OF sub])
    then show ?thesis
      using False by (simp add: written_all [OF assms])
  qed
qed
lemma slot_written_once:
  assumes "mset completion = mset [0..<length epm]" "j < length epm"
  shows "length (filter (\<lambda>t. fst t = j) (imap_unordered completion (parallelFitTasks ft mo epm c))) = 1"
proof -
  have s: "set completion = {..<length epm}"
    by (simp only: mset_eq_setD [OF assms(1)] set_upt atLeast0LessThan)
  have "length (filter (\<lambda>i. j = i) completion) = count (mset completion) j"
    by (induction completion) auto
  also have "\<dots> = count (mset [0..<length epm]) j" by (simp only: assms(1))
  also have "\<dots> = 1" using assms(2) by simp
  finally have "length (filter (\<lambda>i. j = i) completion) = 1" .
  moreover have "(\<lambda>i. j = i) = (\<lambda>i. i = j)" by auto
  moreover have "imap_unordered completion (parallelFitTasks ft mo epm c)
      = map (\<lambda>i. (i, mo (ft (epm ! i)) (epm ! i), if c then Some (ft (epm ! i)) else None)) completion"
    using imap_unordered_tasks [of completion epm ft mo c] s by simp
  ultimately show ?thesis
    by (simp add: filter_map comp_def)
qed

text \<open>
  Claim C8. Let the tasks complete in any order, each exactly once (\<open>completion\<close> is
  a rearrangement of \<open>0, ..., N - 1\<close>). Then every index \<open>j < N\<close> is yielded by exactly
  one trial, so slot \<open>j\<close> is written exactly once; after the loop slot \<open>i\<close> of the
  metric list holds the metric of configuration \<open>epm[i]\<close> (and slot \<open>i\<close> of the
  sub-model list its model, when sub-models are collected); and \<^verbatim>\<open>_fit\<close> returns the same
  result as when the trials complete one after the other in the order of submission.
\<close>

theorem parallel_results_by_original_index:
  assumes "mset completion = mset [0..<length epm]"
  shows "(\<forall>j < length epm.
            length (filter (\<lambda>t. fst t = j)
              (imap_unordered completion (parallelFitTasks fit_train metric_of epm c))) = 1)
       \<and> collect_loop c (imap_unordered completion (parallelFitTasks fit_train metric_of epm c))
            (replicate (length epm) None, if c then Some (replicate (length epm) None) else None)
          = Inr (map (\<lambda>i. Some (metric_of (fit_train (epm ! i)) (epm ! i))) [0..<length epm],
                 if c then Some (map (\<lambda>i. Some (fit_train (epm ! i))) [0..<length epm]) else None)
       \<and> RankingTrainValidationSplit_fit fit_train metric_of fit_dataset isLargerBetter parallelism c
            completion epm
          = RankingTrainValidationSplit_fit fit_train metric_of fit_dataset isLargerBetter parallelism c
              [0..<length epm] epm"
proof -
  have s: "set completion = {..<length epm}"
    by (simp only: mset_eq_setD [OF assms] set_upt atLeast0LessThan)
  have s0: "set [0..<length epm] = {..<length epm}" by auto
  have "collect_loop c (imap_unordered completion (parallelFitTasks fit_train metric_of epm c))
            (replicate (length epm) None, if c then Some (replicate (length epm) None) else None)
      = collect_loop c (imap_unordered [0..<length epm] (parallelFitTasks fit_train metric_of epm c))
            (replicate (length epm) None, if c then Some (replicate (length epm) None) else None)"
    by (simp only: collect_loop_tasks [OF s] collect_loop_tasks [OF s0])
  then have "RankingTrainValidationSplit_fit fit_train metric_of fit_dataset isLargerBetter parallelism c
            completion epm
          = RankingTrainValidationSplit_fit fit_train metric_of fit_dataset isLargerBetter parallelism c
              [0..<length epm] epm"
    by (simp only: RankingTrainValidationSplit_fit_def Let_def)
  with slot_written_once [OF assms] collect_loop_tasks [OF s] show ?thesis by blast
qed

theorem parallel_results_by_original_index_witness:
  "mset [2, 0, Suc 0] = mset [0..<length [10, 20, 30 :: nat]]
   \<and> collect_loop True
        (imap_unordered [2, 0, Suc 0]
          (parallelFitTasks (\<lambda>p. p + 1) (\<lambda>m p. of_nat (m + p)) [10, 20, 30 :: nat] True))
        (replicate (length [10, 20, 30 :: nat]) None, Some (replicate (length [10, 20, 30 :: nat]) None))
      = Inr ([Some 21, Some 41, Some 61], Some [Some 11, Some 21, Some 31])
   \<and> RankingTrainValidationSplit_fit (\<lambda>p. p + 1) (\<lambda>m p. of_nat (m + p)) (\<lambda>p. p + 2) True 2 True
        [2, 0, Suc 0] [10, 20, 30 :: nat]
      = RankingTrainValidationSplit_fit (\<lambda>p. p + 1) (\<lambda>m p. of_nat (m + p)) (\<lambda>p. p + 2) True 2 True
        [0, Suc 0, 2] [10, 20, 30 :: nat]"
proof -
  have p: "mset [2, 0, Suc 0] = mset [0..<length [10, 20, 30 :: nat]]"
    by (simp add: upt_conv_Cons)
  show ?thesis
    using p parallel_results_by_original_index [OF p, of "\<lambda>p. p + 1" "\<lambda>m p. of_nat (m + p)" True
      "\<lambda>p. p + 2" True 2]
    by (simp add: upt_conv_Cons numeral_2_eq_2)
qed

section \<open>The minimum-rating filter\<close>

subsection \<open>Cells\<close>

lemma concat_map_if:
  "concat (map (\<lambda>x. if P x then [f x] else []) xs) = map f (filter P xs)"
  by (induction xs) auto

lemma cell_Cons: "cell ((c, v) # r) c' = (if c = c' then v else cell r c')"
  by (simp add: cell_def)

lemma cell_delete: "c' \<noteq> c \<Longrightarrow> cell (AList.delete c r) c' = cell r c'"
  by (simp add: cell_def)

lemma cell_append_notin:
  "c \<notin> fst ` set r' \<Longrightarrow> cell (r @ r') c = cell r c"
  by (simp add: cell_def map_add_def map_of_eq_None_iff [THEN iffD2] split: option.splits)

lemma cell_filtered_row:
  "k \<noteq> nw \<Longrightarrow> c \<noteq> nw \<Longrightarrow> cell (filtered_row k nw r) c = cell r c"
  by (simp add: filtered_row_def cell_Cons cell_delete)

lemma filtered_row_idem:
  "k \<noteq> nw \<Longrightarrow> filtered_row k nw (filtered_row k nw r) = filtered_row k nw r"
  by (simp add: filtered_row_def cell_Cons AList.delete_idem AList.delete_twist [of k nw])

lemma names_distinct:
  "split_by_column b \<noteq> ''n'' @ split_with_column b"
  "split_by_column b \<noteq> ''count('' @ split_with_column b @ '')''"
  "split_with_column b \<noteq> ''n'' @ split_with_column b"
  "split_by_column b \<noteq> split_with_column b"
  "''count('' @ split_with_column b @ '')'' \<noteq> ''n'' @ split_with_column b"
  by (simp_all add: split_by_column_def split_with_column_def)

lemma val_cmp_IntV [simp]:
  "val_ge (IntV a) (IntV b) = (b \<le> a)"
  "val_gt (IntV a) (IntV b) = (b < a)"
  "val_le (IntV a) (IntV b) = (a \<le> b)"
  by (simp_all add: val_ge_def val_gt_def val_le_def)

subsection \<open>The steps of the filter\<close>

lemma renamed_count_rows:
  assumes "k \<noteq> ''count('' @ w @ '')''"
  shows "rows (withColumnRenamed (''count('' @ w @ '')'') nw (groupBy_count k w self))
      = map (\<lambda>g. [(k, g), (nw, IntV (int (count_in_group k w (rows self) g)))]) (group_keys k (rows self))"
  using assms by (simp add: withColumnRenamed_def groupBy_count_def comp_def)

lemma renamed_count_columns:
  assumes "k \<noteq> ''count('' @ w @ '')''"
  shows "columns (withColumnRenamed (''count('' @ w @ '')'') nw (groupBy_count k w self)) = [k, nw]"
  using assms by (simp add: withColumnRenamed_def groupBy_count_def)

lemma join_group_row:
  assumes "k \<noteq> nw"
  shows "concat (map (\<lambda>r. if g \<noteq> Null \<and> g = cell r k
                 then [join_row k [(k, g), (nw, v)] r] else []) rs)
        = (if g \<noteq> Null then map (\<lambda>r. (k, cell r k) # (nw, v) # AList.delete k r) (partition_of k rs g) else [])"
  using assms by (induction rs) (auto simp: partition_of_def join_row_def cell_Cons)

lemma join_groups_rows:
  assumes "rows left = map (\<lambda>g. [(k, g), (nw, f g)]) gs" "k \<noteq> nw"
  shows "rows (drop_col nw (join_on k left self))
     = concat (map (\<lambda>g. map (filtered_row k nw) (partition_of k (rows self) g))
         (filter (\<lambda>g. g \<noteq> Null) gs))"
proof -
  have blk: "map (AList.delete nw) (if g \<noteq> Null
        then map (\<lambda>r. (k, cell r k) # (nw, v) # AList.delete k r) (partition_of k rs g) else [])
      = (if g \<noteq> Null then map (filtered_row k nw) (partition_of k rs g) else [])" for g v rs
    using assms(2) by (simp add: filtered_row_def)
  have "rows (drop_col nw (join_on k left self))
     = concat (map (\<lambda>g. if g \<noteq> Null then map (filtered_row k nw) (partition_of k (rows self) g) else []) gs)"
    by (simp add: drop_col_def join_on_def assms(1) map_concat comp_def cell_Cons
          join_group_row [OF assms(2)] blk)
  also have "\<dots> = concat (map (\<lambda>g. map (filtered_row k nw) (partition_of k (rows self) g))
         (filter (\<lambda>g. g \<noteq> Null) gs))"
    by (induction gs) auto
  finally show ?thesis .
qed

lemma filter_pipeline_rows:
  assumes "k \<noteq> nw" "k \<noteq> ''count('' @ w @ '')''"
  shows "rows (drop_col nw (join_on k
            (where_rows (\<lambda>r. val_ge (cell r nw) (IntV m))
               (withColumnRenamed (''count('' @ w @ '')'') nw (groupBy_count k w self))) self))
     = concat (map (\<lambda>g. map (filtered_row k nw) (partition_of k (rows self) g))
         (filter (retained k w (rows self) m) (group_keys k (rows self))))"
proof -
  have wh: "rows (where_rows (\<lambda>r. val_ge (cell r nw) (IntV m))
               (withColumnRenamed (''count('' @ w @ '')'') nw (groupBy_count k w self)))
      = map (\<lambda>g. [(k, g), (nw, IntV (int (count_in_group k w (rows self) g)))])
          (filter (\<lambda>g. m \<le> int (count_in_group k w (rows self) g)) (group_keys k (rows self)))"
    using assms
    by (simp add: where_rows_def withColumnRenamed_def groupBy_count_def filter_map comp_def cell_Cons)
  have "filter (\<lambda>g. g \<noteq> Null)
          (filter (\<lambda>g. m \<le> int (count_in_group k w (rows self) g)) (group_keys k (rows self)))
      = filter (retained k w (rows self) m) (group_keys k (rows self))"
    by (simp add: retained_def [abs_def] conj_commute)
  with join_groups_rows [OF wh assms(1)] show ?thesis by (simp only:)
qed

lemma filter_pipeline_columns:
  assumes "k \<noteq> nw" "k \<noteq> ''count('' @ w @ '')''"
  shows "columns (drop_col nw (join_on k
            (where_rows (\<lambda>r. val_ge (cell r nw) (IntV m))
               (withColumnRenamed (''count('' @ w @ '')'') nw (groupBy_count k w self))) self))
     = k # removeAll nw (removeAll k (columns self))"
  using assms
  by (simp add: drop_col_def join_on_def where_rows_def withColumnRenamed_def groupBy_count_def)

text \<open>What the filter returns.\<close>

lemma min_rating_filter_Inr:
  assumes "min_rating_filter self m b = Inr df"
  shows "columns df = split_by_column b # removeAll (''n'' @ split_with_column b)
                        (removeAll (split_by_column b) (columns self))"
    and "rows df = concat (map (\<lambda>g. map (filtered_row (split_by_column b) (''n'' @ split_with_column b))
                                  (partition_of (split_by_column b) (rows self) g))
           (filter (retained (split_by_column b) (split_with_column b) (rows self) m)
                   (group_keys (split_by_column b) (rows self))))"
    and "resolvable (columns self) (split_by_column b)"
    and "resolvable (columns self) (split_with_column b)"
proof -
  let ?k = "split_by_column b" and ?w = "split_with_column b"
  from assms have res: "resolvable (columns self) ?k" "resolvable (columns self) ?w"
    and df: "df = drop_col (''n'' @ ?w) (join_on ?k
            (where_rows (\<lambda>r. val_ge (cell r (''n'' @ ?w)) (IntV m))
               (withColumnRenamed (''count('' @ ?w @ '')'') (''n'' @ ?w) (groupBy_count ?k ?w self))) self)"
    by (auto simp only: min_rating_filter_def Let_def split: if_splits)
  show "resolvable (columns self) ?k" "resolvable (columns self) ?w" by (rule res)+
  show "columns df = ?k # removeAll (''n'' @ ?w) (removeAll ?k (columns self))"
    unfolding df by (rule filter_pipeline_columns [OF names_distinct(1) names_distinct(2)])
  show "rows df = concat (map (\<lambda>g. map (filtered_row ?k (''n'' @ ?w)) (partition_of ?k (rows self) g))
           (filter (retained ?k ?w (rows self) m) (group_keys ?k (rows self))))"
    unfolding df by (rule filter_pipeline_rows [OF names_distinct(1) names_distinct(2)])
qed

lemma min_rating_filter_succeeds:
  assumes "resolvable (columns self) (split_by_column b)" "resolvable (columns self) (split_with_column b)"
  shows "\<exists>df. min_rating_filter self m b = Inr df"
  using assms by (simp add: min_rating_filter_def Let_def)

subsection \<open>Frames made of blocks, one per key\<close>

lemma filter_concat_blocks:
  assumes "distinct gs" "\<forall>g\<in>set gs. \<forall>r\<in>set (F g). key r = g"
  shows "filter (\<lambda>r. key r = g) (concat (map F gs)) = (if g \<in> set gs then F g else [])"
  using assms
proof (induction gs)
  case Nil
  then show ?case by simp
next
  case (Cons a gs)
  have a: "filter (\<lambda>r. key r = g) (F a) = (if a = g then F a else [])"
    using Cons.prems(2) by (auto simp: filter_empty_conv intro: filter_True)
  from Cons have "filter (\<lambda>r. key r = g) (concat (map F gs)) = (if g \<in> set gs then F g else [])"
    by simp
  with a Cons.prems(1) show ?case by auto
qed

lemma remdups_const_append:
  "xs \<noteq> [] \<Longrightarrow> \<forall>x\<in>set xs. x = a \<Longrightarrow> a \<notin> set ys \<Longrightarrow> remdups (xs @ ys) = a # remdups ys"
proof (induction xs)
  case Nil
  then show ?case by simp
next
  case (Cons x xs)
  show ?case
  proof (cases "xs = []")
    case True
    with Cons.prems show ?thesis by simp
  next
    case False
    with Cons have "remdups (xs @ ys) = a # remdups ys" by simp
    moreover from False Cons.prems have "x \<in> set xs" by (cases xs) auto
    ultimately show ?thesis by simp
  qed
qed

lemma remdups_blocks:
  assumes "distinct gs" "\<forall>g\<in>set gs. F g \<noteq> [] \<and> (\<forall>r\<in>set (F g). key r = g)"
  shows "remdups (map key (concat (map F gs))) = gs"
  using assms
proof (induction gs)
  case Nil
  then show ?case by simp
next
  case (Cons a gs)
  let ?ys = "map key (concat (map F gs))"
  have ih: "remdups ?ys = gs" using Cons by simp
  then have sy: "set ?ys = set gs" by (metis set_remdups)
  have a1: "\<forall>x\<in>set (map key (F a)). x = a" and a2: "map key (F a) \<noteq> []"
    using Cons.prems(2) by auto
  have a3: "a \<notin> set ?ys" using Cons.prems(1) unfolding sy by simp
  have "remdups (map key (F a) @ ?ys) = a # remdups ?ys"
    by (rule remdups_const_append [OF a2 a1 a3])
  then show ?case using ih by simp
qed

lemma mset_concat_blocks:
  assumes "distinct gs"
  shows "mset (concat (map (\<lambda>g. map f (filter (\<lambda>r. key r = g) xs)) gs))
       = mset (map f (filter (\<lambda>r. key r \<in> set gs) xs))"
  using assms
proof (induction gs)
  case Nil
  then show ?case by simp
next
  case (Cons a gs)
  have "mset (filter (\<lambda>r. key r = a \<or> key r \<in> set gs) xs)
      = mset (filter (\<lambda>r. key r = a) xs) + mset (filter (\<lambda>r. key r \<in> set gs) xs)"
    using Cons.prems by (induction xs) auto
  with Cons show ?case by simp
qed

lemma distinct_group_keys: "distinct (group_keys k rs)"
  by (simp add: group_keys_def)

lemma set_group_keys: "set (group_keys k rs) = (\<lambda>r. cell r k) ` set rs"
  by (simp add: group_keys_def)

lemma partition_nonempty: "g \<in> set (group_keys k rs) \<Longrightarrow> partition_of k rs g \<noteq> []"
  by (auto simp: set_group_keys partition_of_def filter_empty_conv)

lemma partition_key: "r \<in> set (partition_of k rs g) \<Longrightarrow> cell r k = g"
  by (simp add: partition_of_def)

lemma count_list_removeAll: "count_list (removeAll a xs) b = (if a = b then 0 else count_list xs b)"
  by (induction xs) auto

lemma filtered_row_keys:
  "map fst (filtered_row k nw r) = k # removeAll nw (removeAll k (map fst r))"
  by (simp add: filtered_row_def AList.delete_keys)

lemma min_rating_filter_rows_from:
  assumes "min_rating_filter self m b = Inr df" "r' \<in> set (rows df)"
  shows "\<exists>r\<in>set (rows self). r' = filtered_row (split_by_column b) (''n'' @ split_with_column b) r
            \<and> retained (split_by_column b) (split_with_column b) (rows self) m (cell r (split_by_column b))"
  using assms(2) unfolding min_rating_filter_Inr(2) [OF assms(1)]
  by (auto simp: partition_of_def)

lemma min_rating_filter_wf:
  assumes "min_rating_filter self m b = Inr df" "wf_frame self"
  shows "wf_frame df"
  unfolding wf_frame_def
proof
  fix r' assume "r' \<in> set (rows df)"
  from min_rating_filter_rows_from [OF assms(1) this] obtain r where
    r: "r \<in> set (rows self)" "r' = filtered_row (split_by_column b) (''n'' @ split_with_column b) r"
    by blast
  with assms(2) have "map fst r = columns self" by (simp add: wf_frame_def)
  with r(2) show "map fst r' = columns df"
    by (simp add: filtered_row_keys min_rating_filter_Inr(1) [OF assms(1)])
qed

text \<open>The blocks of the filtered frame.\<close>

lemma filtered_blocks:
  fixes k nw w rs m
  defines "B \<equiv> \<lambda>g. map (filtered_row k nw) (partition_of k rs g)"
    and "gs \<equiv> filter (retained k w rs m) (group_keys k rs)"
  assumes "k \<noteq> nw"
  shows "distinct gs"
    and "\<forall>g\<in>set gs. B g \<noteq> [] \<and> (\<forall>r\<in>set (B g). cell r k = g)"
proof -
  show "distinct gs" by (simp add: gs_def distinct_group_keys)
  show "\<forall>g\<in>set gs. B g \<noteq> [] \<and> (\<forall>r\<in>set (B g). cell r k = g)"
    using assms(3)
    by (auto simp: gs_def B_def partition_nonempty cell_filtered_row filtered_row_def cell_Cons
        dest: partition_key)
qed

lemma filtered_group_keys:
  assumes "k \<noteq> nw"
  shows "group_keys k (concat (map (\<lambda>g. map (filtered_row k nw) (partition_of k rs g))
           (filter (retained k w rs m) (group_keys k rs))))
       = filter (retained k w rs m) (group_keys k rs)"
  unfolding group_keys_def [of k "concat _"]
  using filtered_blocks [OF assms, of w rs m]
  by (intro remdups_blocks) auto

lemma filtered_partition:
  assumes "k \<noteq> nw"
  shows "partition_of k (concat (map (\<lambda>g. map (filtered_row k nw) (partition_of k rs g))
           (filter (retained k w rs m) (group_keys k rs)))) g
       = (if g \<in> set (filter (retained k w rs m) (group_keys k rs))
          then map (filtered_row k nw) (partition_of k rs g) else [])"
  unfolding partition_of_def [of k "concat _"]
  using filtered_blocks [OF assms, of w rs m]
  by (intro filter_concat_blocks) auto

lemma count_in_group_partition:
  "count_in_group k c rs g = length (filter (\<lambda>r. cell r c \<noteq> Null) (partition_of k rs g))"
  by (simp add: count_in_group_def partition_of_def conj_commute)

lemma filtered_count:
  assumes "k \<noteq> nw" "w \<noteq> nw" "g \<in> set (filter (retained k w rs m) (group_keys k rs))"
  shows "count_in_group k w (concat (map (\<lambda>g. map (filtered_row k nw) (partition_of k rs g))
           (filter (retained k w rs m) (group_keys k rs)))) g = count_in_group k w rs g"
  using assms
  by (simp add: count_in_group_partition filtered_partition filter_map comp_def cell_filtered_row)

lemma filtered_again_rows:
  fixes rs m
  assumes "k \<noteq> nw" "w \<noteq> nw"
  defines "R \<equiv> concat (map (\<lambda>g. map (filtered_row k nw) (partition_of k rs g))
           (filter (retained k w rs m) (group_keys k rs)))"
  shows "concat (map (\<lambda>g. map (filtered_row k nw) (partition_of k R g))
           (filter (retained k w R m) (group_keys k R))) = R"
proof -
  let ?gs = "filter (retained k w rs m) (group_keys k rs)"
  have gk: "group_keys k R = ?gs"
    unfolding R_def by (rule filtered_group_keys [OF assms(1)])
  have keep: "filter (retained k w R m) ?gs = ?gs"
  proof (rule filter_True, rule ballI)
    fix g assume g: "g \<in> set ?gs"
    have "count_in_group k w R g = count_in_group k w rs g"
      unfolding R_def by (rule filtered_count [OF assms(1,2) g])
    with g show "retained k w R m g" by (simp add: retained_def)
  qed
  have "concat (map (\<lambda>g. map (filtered_row k nw) (partition_of k R g)) ?gs)
      = concat (map (\<lambda>g. map (filtered_row k nw) (partition_of k rs g)) ?gs)"
  proof (rule arg_cong [where f = concat], rule map_cong [OF refl])
    fix g assume g: "g \<in> set ?gs"
    have "partition_of k R g = map (filtered_row k nw) (partition_of k rs g)"
      unfolding R_def using g by (simp only: filtered_partition [OF assms(1)] if_True)
    then show "map (filtered_row k nw) (partition_of k R g)
             = map (filtered_row k nw) (partition_of k rs g)"
      by (simp add: filtered_row_idem [OF assms(1)])
  qed
  then show ?thesis
    unfolding gk keep by (simp only: R_def)
qed

lemma removeAll_twice:
  "removeAll a (removeAll b (removeAll a (removeAll b xs))) = removeAll a (removeAll b xs)"
  by (induction xs) auto

lemma min_rating_filter_idem_aux:
  assumes "min_rating_filter self m b = Inr df"
  shows "min_rating_filter df m b = Inr df"
proof -
  let ?k = "split_by_column b" and ?w = "split_with_column b"
  let ?nw = "''n'' @ ?w"
  note c = min_rating_filter_Inr [OF assms]
  have rk: "resolvable (columns df) ?k"
    using names_distinct(1) [of b]
    by (simp add: resolvable_def c(1) count_list_removeAll)
  have rw: "resolvable (columns df) ?w"
    using c(4) names_distinct(3,4) [of b]
    by (simp add: resolvable_def c(1) count_list_removeAll)
  from min_rating_filter_succeeds [OF rk rw] obtain df' where df': "min_rating_filter df m b = Inr df'"
    by blast
  note c' = min_rating_filter_Inr [OF df']
  have rows: "rows df' = rows df"
    unfolding c'(2) unfolding c(2)
    by (rule filtered_again_rows [OF names_distinct(1) names_distinct(3)])
  have cols: "columns df' = columns df"
    unfolding c'(1) unfolding c(1)
    using names_distinct(1) [of b]
    by (simp add: removeAll_twice)
  from rows cols have "df' = df" by simp
  with df' show ?thesis by simp
qed

lemma min_rating_filter_mset:
  assumes "min_rating_filter self m b = Inr df"
  shows "mset (rows df) = mset (map (filtered_row (split_by_column b) (''n'' @ split_with_column b))
           (filter (\<lambda>r. retained (split_by_column b) (split_with_column b) (rows self) m
                          (cell r (split_by_column b))) (rows self)))"
proof -
  let ?k = "split_by_column b" and ?w = "split_with_column b"
  let ?gs = "filter (retained ?k ?w (rows self) m) (group_keys ?k (rows self))"
  have "mset (rows df) = mset (map (filtered_row ?k (''n'' @ ?w))
           (filter (\<lambda>r. cell r ?k \<in> set ?gs) (rows self)))"
    unfolding min_rating_filter_Inr(2) [OF assms] partition_of_def
    by (rule mset_concat_blocks) (simp add: distinct_group_keys)
  moreover have "filter (\<lambda>r. cell r ?k \<in> set ?gs) (rows self)
      = filter (\<lambda>r. retained ?k ?w (rows self) m (cell r ?k)) (rows self)"
    by (rule filter_cong) (auto simp: set_group_keys)
  ultimately show ?thesis by (simp only:)
qed

text \<open>
  Claim C9. \<^verbatim>\<open>min_rating_filter\<close> is idempotent: applied with the same \<^verbatim>\<open>min_rating\<close> and
  the same grouping choice to a frame it has returned, it returns that frame unchanged
  (the same columns and the same rows, so in particular the same set of records).
\<close>

theorem min_rating_filter_idempotent:
  assumes "min_rating_filter self min_rating by_customer = Inr df"
  shows "min_rating_filter df min_rating by_customer = Inr df"
  using assms by (rule min_rating_filter_idem_aux)

theorem min_rating_filter_idempotent_witness:
  "min_rating_filter three_ratings 2 True
     = Inr \<lparr>columns = [''customerID'', ''itemID'', ''rating''],
            rows = [[(''customerID'', IntV 1), (''itemID'', IntV 5), (''rating'', IntV 3)],
                    [(''customerID'', IntV 1), (''itemID'', IntV 6), (''rating'', IntV 4)]]\<rparr>
   \<and> min_rating_filter
         \<lparr>columns = [''customerID'', ''itemID'', ''rating''],
          rows = [[(''customerID'', IntV 1), (''itemID'', IntV 5), (''rating'', IntV 3)],
                  [(''customerID'', IntV 1), (''itemID'', IntV 6), (''rating'', IntV 4)]]\<rparr> 2 True
     = Inr \<lparr>columns = [''customerID'', ''itemID'', ''rating''],
            rows = [[(''customerID'', IntV 1), (''itemID'', IntV 5), (''rating'', IntV 3)],
                    [(''customerID'', IntV 1), (''itemID'', IntV 6), (''rating'', IntV 4)]]\<rparr>"
proof -
  have h: "min_rating_filter three_ratings 2 True
     = Inr \<lparr>columns = [''customerID'', ''itemID'', ''rating''],
            rows = [[(''customerID'', IntV 1), (''itemID'', IntV 5), (''rating'', IntV 3)],
                    [(''customerID'', IntV 1), (''itemID'', IntV 6), (''rating'', IntV 4)]]\<rparr>"
    by code_simp
  from h min_rating_filter_idempotent [OF h] show ?thesis by (rule conjI)
qed

text \<open>
  Claim C2, as amended. On a frame that has the two id columns, \<^verbatim>\<open>min_rating_filter\<close>
  returns, as a bag, exactly the records whose grouping key is not null and whose group
  holds at least \<^verbatim>\<open>min_rating\<close> records with a counterpart id (\<open>count_in_group\<close> counts
  records, a counterpart that occurs twice counts twice). A returned record has the
  grouping column in front and every cell of the record it comes from, but for a column
  named like the dropped count (\<^verbatim>\<open>"n" + split_with_column\<close>).
\<close>

theorem min_rating_filter_retains_by_record_count:
  assumes "resolvable (columns self) (split_by_column by_customer)"
    and "resolvable (columns self) (split_with_column by_customer)"
  shows "\<exists>df. min_rating_filter self min_rating by_customer = Inr df
      \<and> mset (rows df)
          = mset (map (filtered_row (split_by_column by_customer) (''n'' @ split_with_column by_customer))
              (filter (\<lambda>r. cell r (split_by_column by_customer) \<noteq> Null
                        \<and> min_rating \<le> int (count_in_group (split_by_column by_customer)
                              (split_with_column by_customer) (rows self)
                              (cell r (split_by_column by_customer))))
                 (rows self)))
      \<and> columns df = split_by_column by_customer
            # removeAll (''n'' @ split_with_column by_customer)
                (removeAll (split_by_column by_customer) (columns self))
      \<and> (\<forall>r c. c \<noteq> ''n'' @ split_with_column by_customer \<longrightarrow>
            cell (filtered_row (split_by_column by_customer) (''n'' @ split_with_column by_customer) r) c
              = cell r c)"
proof -
  from min_rating_filter_succeeds [OF assms] obtain df
    where df: "min_rating_filter self min_rating by_customer = Inr df" by blast
  have "mset (rows df)
          = mset (map (filtered_row (split_by_column by_customer) (''n'' @ split_with_column by_customer))
              (filter (\<lambda>r. cell r (split_by_column by_customer) \<noteq> Null
                        \<and> min_rating \<le> int (count_in_group (split_by_column by_customer)
                              (split_with_column by_customer) (rows self)
                              (cell r (split_by_column by_customer))))
                 (rows self)))"
    using min_rating_filter_mset [OF df] by (simp only: retained_def)
  moreover have "\<forall>r c. c \<noteq> ''n'' @ split_with_column by_customer \<longrightarrow>
            cell (filtered_row (split_by_column by_customer) (''n'' @ split_with_column by_customer) r) c
              = cell r c"
    using cell_filtered_row [OF names_distinct(1)] by blast
  ultimately show ?thesis
    using df min_rating_filter_Inr(1) [OF df] by blast
qed

theorem min_rating_filter_retains_by_record_count_witness:
  "resolvable (columns three_ratings) (split_by_column True)
   \<and> resolvable (columns three_ratings) (split_with_column True)
   \<and> (\<exists>df. min_rating_filter three_ratings 2 True = Inr df
         \<and> mset (rows df)
            = mset [[(''customerID'', IntV 1), (''itemID'', IntV 5), (''rating'', IntV 3)],
                    [(''customerID'', IntV 1), (''itemID'', IntV 6), (''rating'', IntV 4)]]
         \<and> columns df = [''customerID'', ''itemID'', ''rating''])"
proof -
  have r1: "resolvable (columns three_ratings) (split_by_column True)" by code_simp
  have r2: "resolvable (columns three_ratings) (split_with_column True)" by code_simp
  have e: "map (filtered_row (split_by_column True) (''n'' @ split_with_column True))
              (filter (\<lambda>r. cell r (split_by_column True) \<noteq> Null
                        \<and> 2 \<le> int (count_in_group (split_by_column True)
                              (split_with_column True) (rows three_ratings)
                              (cell r (split_by_column True))))
                 (rows three_ratings))
      = [[(''customerID'', IntV 1), (''itemID'', IntV 5), (''rating'', IntV 3)],
         [(''customerID'', IntV 1), (''itemID'', IntV 6), (''rating'', IntV 4)]]"
    by code_simp
  have c: "split_by_column True # removeAll (''n'' @ split_with_column True)
                (removeAll (split_by_column True) (columns three_ratings))
      = [''customerID'', ''itemID'', ''rating'']"
    by code_simp
  from min_rating_filter_retains_by_record_count [OF r1 r2, of 2]
  show ?thesis unfolding e c using r1 r2 by blast
qed

text \<open>
  Claim C2 as stated fails: a customer who rated one item twice has two records and one
  distinct counterpart. With \<^verbatim>\<open>min_rating = 2\<close> the filter keeps both records, while a
  filter on the number of distinct counterparts keeps none.
\<close>

theorem filter_counts_records_not_distinct_counterparts:
  "min_rating_filter two_ratings 2 True = Inr two_ratings
   \<and> distinct_support_filter two_ratings 2 True = []"
  by code_simp

section \<open>The rank-based splitters\<close>

subsection \<open>Row numbers\<close>

lemma length_number_from [simp]: "length (number_from a i xs) = length xs"
  by (induction xs arbitrary: i) auto



lemma number_from_rows:
  "r' \<in> set (number_from a i xs) \<Longrightarrow> \<exists>r\<in>set xs. \<exists>j. r' = r @ [(a, IntV j)]"
  by (induction xs arbitrary: i) auto

lemma cell_append_other: "c \<noteq> a \<Longrightarrow> cell (r @ [(a, v)]) c = cell r c"
  by (simp add: cell_def map_add_def split: option.splits)

lemma cell_append_new: "a \<notin> fst ` set r \<Longrightarrow> cell (r @ [(a, v)]) a = v"
  by (simp add: cell_def map_add_def map_of_eq_None_iff [THEN iffD2] split: option.splits)



text \<open>Filtering numbered rows against a bound that is the same number \<open>q\<close> on every
  row keeps a prefix: the rows numbered up to \<open>\<lfloor>q\<rfloor>\<close>.\<close>

lemma filter_rank_le:
  assumes "\<forall>r\<in>set xs. a \<notin> fst ` set r"
      and "\<forall>r\<in>set xs. \<forall>v. num_of (bnd (r @ [(a, v)])) = Some q"
  shows "filter (\<lambda>r. val_le (cell r a) (bnd r)) (number_from a i xs)
       = take (nat (\<lfloor>q\<rfloor> + 1 - int i)) (number_from a i xs)"
  using assms
proof (induction xs arbitrary: i)
  case Nil
  then show ?case by simp
next
  case (Cons x xs)
  have ih: "filter (\<lambda>r. val_le (cell r a) (bnd r)) (number_from a (Suc i) xs)
       = take (nat (\<lfloor>q\<rfloor> + 1 - int (Suc i))) (number_from a (Suc i) xs)"
    using Cons by simp
  have le: "val_le (cell (x @ [(a, IntV (int i))]) a) (bnd (x @ [(a, IntV (int i))])) = (int i \<le> \<lfloor>q\<rfloor>)"
    using Cons.prems by (simp add: cell_append_new val_le_def le_floor_iff)
  show ?case
  proof (cases "int i \<le> \<lfloor>q\<rfloor>")
    case True
    then have "nat (\<lfloor>q\<rfloor> + 1 - int i) = Suc (nat (\<lfloor>q\<rfloor> + 1 - int (Suc i)))" by simp
    with True le ih show ?thesis by simp
  next
    case False
    then have "nat (\<lfloor>q\<rfloor> + 1 - int i) = 0" "nat (\<lfloor>q\<rfloor> + 1 - int (Suc i)) = 0" by simp_all
    with False le ih show ?thesis by simp
  qed
qed

lemma filter_rank_gt:
  assumes "\<forall>r\<in>set xs. a \<notin> fst ` set r"
      and "\<forall>r\<in>set xs. \<forall>v. num_of (bnd (r @ [(a, v)])) = Some q"
  shows "filter (\<lambda>r. val_gt (cell r a) (bnd r)) (number_from a i xs)
       = drop (nat (\<lfloor>q\<rfloor> + 1 - int i)) (number_from a i xs)"
  using assms
proof (induction xs arbitrary: i)
  case Nil
  then show ?case by simp
next
  case (Cons x xs)
  have ih: "filter (\<lambda>r. val_gt (cell r a) (bnd r)) (number_from a (Suc i) xs)
       = drop (nat (\<lfloor>q\<rfloor> + 1 - int (Suc i))) (number_from a (Suc i) xs)"
    using Cons by simp
  have gt: "val_gt (cell (x @ [(a, IntV (int i))]) a) (bnd (x @ [(a, IntV (int i))])) = (\<lfloor>q\<rfloor> < int i)"
    using Cons.prems by (simp add: cell_append_new val_gt_def floor_less_iff)
  show ?case
  proof (cases "int i \<le> \<lfloor>q\<rfloor>")
    case True
    then have "nat (\<lfloor>q\<rfloor> + 1 - int i) = Suc (nat (\<lfloor>q\<rfloor> + 1 - int (Suc i)))" by simp
    with True gt ih show ?thesis by simp
  next
    case False
    then have "nat (\<lfloor>q\<rfloor> + 1 - int i) = 0" "nat (\<lfloor>q\<rfloor> + 1 - int (Suc i)) = 0" by simp_all
    with False gt ih show ?thesis by simp
  qed
qed

lemma ranked_where_le:
  assumes "\<forall>r\<in>set (rows df). a \<notin> fst ` set r"
    and "\<forall>xs. mset (ord xs) = mset xs"
    and "\<forall>g\<in>set (group_keys k (rows df)). \<forall>r\<in>set (partition_of k (rows df) g).
           \<forall>v. num_of (bnd (r @ [(a, v)])) = Some (q g)"
  shows "rows (where_rows (\<lambda>r. val_le (cell r a) (bnd r)) (select_row_number k ord a df))
       = concat (map (\<lambda>g. take (nat \<lfloor>q g\<rfloor>) (number_from a 1 (ord (partition_of k (rows df) g))))
           (group_keys k (rows df)))"
proof -
  have blk: "filter (\<lambda>r. val_le (cell r a) (bnd r)) (number_from a 1 (ord (partition_of k (rows df) g)))
       = take (nat \<lfloor>q g\<rfloor>) (number_from a 1 (ord (partition_of k (rows df) g)))"
    if g: "g \<in> set (group_keys k (rows df))" for g
  proof -
    have s: "set (ord (partition_of k (rows df) g)) = set (partition_of k (rows df) g)"
      using assms(2) by (metis set_mset_mset)
    have 1: "\<forall>r\<in>set (ord (partition_of k (rows df) g)). a \<notin> fst ` set r"
      unfolding s using assms(1) by (simp add: partition_of_def)
    have 2: "\<forall>r\<in>set (ord (partition_of k (rows df) g)). \<forall>v. num_of (bnd (r @ [(a, v)])) = Some (q g)"
      unfolding s using assms(3) g by blast
    from filter_rank_le [OF 1 2, of 1] show ?thesis by simp
  qed
  have "rows (where_rows (\<lambda>r. val_le (cell r a) (bnd r)) (select_row_number k ord a df))
      = concat (map (\<lambda>g. filter (\<lambda>r. val_le (cell r a) (bnd r))
                 (number_from a 1 (ord (partition_of k (rows df) g)))) (group_keys k (rows df)))"
    by (simp add: where_rows_def select_row_number_def filter_concat comp_def)
  also have "\<dots> = concat (map (\<lambda>g. take (nat \<lfloor>q g\<rfloor>)
                 (number_from a 1 (ord (partition_of k (rows df) g)))) (group_keys k (rows df)))"
    by (rule arg_cong [where f = concat], rule map_cong [OF refl], rule blk)
  finally show ?thesis .
qed

lemma ranked_where_gt:
  assumes "\<forall>r\<in>set (rows df). a \<notin> fst ` set r"
    and "\<forall>xs. mset (ord xs) = mset xs"
    and "\<forall>g\<in>set (group_keys k (rows df)). \<forall>r\<in>set (partition_of k (rows df) g).
           \<forall>v. num_of (bnd (r @ [(a, v)])) = Some (q g)"
  shows "rows (where_rows (\<lambda>r. val_gt (cell r a) (bnd r)) (select_row_number k ord a df))
       = concat (map (\<lambda>g. drop (nat \<lfloor>q g\<rfloor>) (number_from a 1 (ord (partition_of k (rows df) g))))
           (group_keys k (rows df)))"
proof -
  have blk: "filter (\<lambda>r. val_gt (cell r a) (bnd r)) (number_from a 1 (ord (partition_of k (rows df) g)))
       = drop (nat \<lfloor>q g\<rfloor>) (number_from a 1 (ord (partition_of k (rows df) g)))"
    if g: "g \<in> set (group_keys k (rows df))" for g
  proof -
    have s: "set (ord (partition_of k (rows df) g)) = set (partition_of k (rows df) g)"
      using assms(2) by (metis set_mset_mset)
    have 1: "\<forall>r\<in>set (ord (partition_of k (rows df) g)). a \<notin> fst ` set r"
      unfolding s using assms(1) by (simp add: partition_of_def)
    have 2: "\<forall>r\<in>set (ord (partition_of k (rows df) g)). \<forall>v. num_of (bnd (r @ [(a, v)])) = Some (q g)"
      unfolding s using assms(3) g by blast
    from filter_rank_gt [OF 1 2, of 1] show ?thesis by simp
  qed
  have "rows (where_rows (\<lambda>r. val_gt (cell r a) (bnd r)) (select_row_number k ord a df))
      = concat (map (\<lambda>g. filter (\<lambda>r. val_gt (cell r a) (bnd r))
                 (number_from a 1 (ord (partition_of k (rows df) g)))) (group_keys k (rows df)))"
    by (simp add: where_rows_def select_row_number_def filter_concat comp_def)
  also have "\<dots> = concat (map (\<lambda>g. drop (nat \<lfloor>q g\<rfloor>)
                 (number_from a 1 (ord (partition_of k (rows df) g)))) (group_keys k (rows df)))"
    by (rule arg_cong [where f = concat], rule map_cong [OF refl], rule blk)
  finally show ?thesis .
qed

subsection \<open>The outer join with the counts\<close>

lemma concat_map_singletons:
  "\<forall>x\<in>set xs. F x = [h x] \<Longrightarrow> concat (map F xs) = map h xs"
  by (induction xs) auto

lemma concat_map_if_eq:
  "distinct gs \<Longrightarrow> concat (map (\<lambda>g. if x = g then [h g] else []) gs) = (if x \<in> set gs then [h x] else [])"
  by (induction gs) auto

lemma outer_join_counts_rows:
  assumes "rows right = map (\<lambda>g. [(k, g), (c, f g)]) (group_keys k (rows left))"
    and "k \<noteq> c"
    and "\<forall>l\<in>set (rows left). cell l k \<noteq> Null"
  shows "rows (outer_join_on k left right)
       = map (\<lambda>l. (k, cell l k) # AList.delete k l @ [(c, f (cell l k))]) (rows left)"
proof -
  let ?gs = "group_keys k (rows left)"
  have inner: "concat (map (\<lambda>r. if cell l k \<noteq> Null \<and> cell l k = cell r k then [join_row k l r] else [])
                 (rows right))
        = [(k, cell l k) # AList.delete k l @ [(c, f (cell l k))]]"
    if l: "l \<in> set (rows left)" for l
  proof -
    have "concat (map (\<lambda>r. if cell l k \<noteq> Null \<and> cell l k = cell r k then [join_row k l r] else [])
                 (rows right))
        = concat (map (\<lambda>g. if cell l k = g then [join_row k l [(k, g), (c, f g)]] else []) ?gs)"
      using assms(3) l by (simp add: assms(1) comp_def cell_Cons)
    also have "\<dots> = [join_row k l [(k, cell l k), (c, f (cell l k))]]"
      using l by (simp add: concat_map_if_eq distinct_group_keys set_group_keys)
    finally show ?thesis using assms(2) by (simp add: join_row_def)
  qed
  have i: "rows (join_on k left right)
      = map (\<lambda>l. (k, cell l k) # AList.delete k l @ [(c, f (cell l k))]) (rows left)"
    using inner by (simp add: join_on_def concat_map_singletons)
  have ul: "filter (unmatched k (rows right)) (rows left) = []"
    using assms(3) by (auto simp: filter_empty_conv unmatched_def assms(1) comp_def cell_Cons set_group_keys)
  have ur: "filter (unmatched k (rows left)) (rows right) = []"
    using assms(3)
    by (auto simp: filter_empty_conv unmatched_def assms(1) comp_def cell_Cons set_group_keys)
  show ?thesis
    by (simp add: outer_join_on_def i ul ur)
qed

lemma stratified_split_rank_split:
  "stratified_split rand_train rand_test self min_rating by_customer ratio fixed_test_sample sample =
     (if sample_guard fixed_test_sample sample min_rating then Minus_One
      else case min_rating_filter self min_rating by_customer of
          Inl e \<Rightarrow> Raised e
        | Inr rating_joined \<Rightarrow>
            (case rank_split rand_train (split_by_column by_customer) (split_with_column by_customer)
                    rating_joined ratio fixed_test_sample sample of
               Inl e \<Rightarrow> Raised e
             | Inr p \<Rightarrow>
                 (case rank_split rand_test (split_by_column by_customer)
                         (split_with_column by_customer) rating_joined ratio fixed_test_sample sample of
                    Inl e \<Rightarrow> Raised e
                  | Inr q \<Rightarrow> Split (fst p) (snd q))))"
  by (simp add: stratified_split_def rank_split_def Let_def select_row_number_def split: sum.splits)

lemma chronological_split_rank_split:
  "chronological_split self min_rating by_customer ratio fixed_test_sample sample =
     (if sample_guard fixed_test_sample sample min_rating then Minus_One
      else case min_rating_filter self min_rating by_customer of
          Inl e \<Rightarrow> Raised e
        | Inr rating_joined \<Rightarrow>
            if \<not> resolvable (columns rating_joined) ''timeStamp'' then Raised AnalysisException
            else
            (case rank_split timeStamp_desc (split_by_column by_customer) ''timeStamp''
                    rating_joined ratio fixed_test_sample sample of
               Inl e \<Rightarrow> Raised e
             | Inr p \<Rightarrow>
                 Split (select_cols [split_by_column by_customer, split_with_column by_customer,
                           ''timeStamp''] (fst p))
                       (select_cols [split_by_column by_customer, split_with_column by_customer,
                           ''timeStamp''] (snd p))))"
  by (simp add: chronological_split_def rank_split_def Let_def split: sum.splits)

lemma resolvable_appended: "resolvable (cs @ [a]) a \<longleftrightarrow> a \<notin> set cs"
  by (simp add: resolvable_def count_list_0_iff)

lemma wf_keys: "wf_frame df \<Longrightarrow> r \<in> set (rows df) \<Longrightarrow> fst ` set r = set (columns df)"
  by (metis wf_frame_def set_map)

lemma rank_split_fixed:
  assumes rs: "rank_split ord k c R ratio True sample = Inr (tr, te)"
    and wf: "wf_frame R"
    and ord: "\<forall>xs. mset (ord xs) = mset xs"
  shows "rows te = concat (map (\<lambda>g. take (held_out True ratio sample (count_in_group k c (rows R) g))
                                   (ranked_block ord True k c ratio (rows R) g))
                        (group_keys k (rows R)))"
    and "rows tr = concat (map (\<lambda>g. drop (held_out True ratio sample (count_in_group k c (rows R) g))
                                   (ranked_block ord True k c ratio (rows R) g))
                        (group_keys k (rows R)))"
    and "columns te = columns R @ [''rank'']" and "columns tr = columns R @ [''rank'']"
    and "''rank'' \<notin> set (columns R)"
proof -
  let ?ranked = "select_row_number k ord ''rank'' R"
  from rs have res: "resolvable (columns ?ranked) ''rank''"
    and tr: "tr = where_rows (\<lambda>r. val_gt (cell r ''rank'') (IntV sample)) ?ranked"
    and te: "te = where_rows (\<lambda>r. val_le (cell r ''rank'') (IntV sample)) ?ranked"
    by (auto simp: rank_split_def Let_def split: if_splits)
  from res show fresh: "''rank'' \<notin> set (columns R)"
    by (simp add: select_row_number_def resolvable_appended)
  have 1: "\<forall>r\<in>set (rows R). ''rank'' \<notin> fst ` set r"
    using fresh wf_keys [OF wf] by simp
  have 2: "\<forall>g\<in>set (group_keys k (rows R)). \<forall>r\<in>set (partition_of k (rows R) g).
           \<forall>v. num_of ((\<lambda>r. IntV sample) (r @ [(''rank'', v)])) = Some (of_int sample)"
    by simp
  show "rows te = concat (map (\<lambda>g. take (held_out True ratio sample (count_in_group k c (rows R) g))
                                   (ranked_block ord True k c ratio (rows R) g))
                        (group_keys k (rows R)))"
    unfolding te using ranked_where_le [OF 1 ord 2]
    by (simp add: held_out_def ranked_block_def)
  show "rows tr = concat (map (\<lambda>g. drop (held_out True ratio sample (count_in_group k c (rows R) g))
                                   (ranked_block ord True k c ratio (rows R) g))
                        (group_keys k (rows R)))"
    unfolding tr using ranked_where_gt [OF 1 ord 2]
    by (simp add: held_out_def ranked_block_def)
  show "columns te = columns R @ [''rank'']" "columns tr = columns R @ [''rank'']"
    by (simp_all add: te tr where_rows_def select_row_number_def)
qed

lemma cell_update: "cell (AList.update a v r) c = (if c = a then v else cell r c)"
  by (simp add: cell_def AList.update_conv')

lemma cell_with_count_key:
  "k \<noteq> ''count'' \<Longrightarrow> k \<noteq> ''splitPoint'' \<Longrightarrow> cell (with_count k c ratio rs l) k = cell l k"
  by (simp add: with_count_def cell_update cell_append_other)

lemma partition_of_map:
  "\<forall>l. cell (E l) k = cell l k \<Longrightarrow> partition_of k (map E rs) g = map E (partition_of k rs g)"
  by (simp add: partition_of_def filter_map comp_def)

lemma group_keys_map:
  "\<forall>l. cell (E l) k = cell l k \<Longrightarrow> group_keys k (map E rs) = group_keys k rs"
  by (simp add: group_keys_def comp_def)

lemma rank_split_ratio:
  assumes rs: "rank_split ord k c R ratio False sample = Inr (tr, te)"
    and wf: "wf_frame R"
    and ord: "\<forall>xs. mset (ord xs) = mset xs"
    and names: "k \<noteq> ''count('' @ c @ '')''" "k \<noteq> ''count''" "k \<noteq> ''splitPoint''"
    and nonnull: "\<forall>l\<in>set (rows R). cell l k \<noteq> Null"
    and rejoin: "\<forall>l\<in>set (rows R). (k, cell l k) # AList.delete k l = l"
    and cols: "columns R = k # removeAll k (columns R)"
  shows "rows te = concat (map (\<lambda>g. take (held_out False ratio sample (count_in_group k c (rows R) g))
                                   (ranked_block ord False k c ratio (rows R) g))
                        (group_keys k (rows R)))"
    and "rows tr = concat (map (\<lambda>g. drop (held_out False ratio sample (count_in_group k c (rows R) g))
                                   (ranked_block ord False k c ratio (rows R) g))
                        (group_keys k (rows R)))"
    and "columns te = columns R @ ''count'' # (if ''splitPoint'' \<in> set (columns R) then [] else [''splitPoint'']) @ [''rank'']"
    and "columns tr = columns te"
    and "''rank'' \<notin> set (columns R)" and "''count'' \<notin> set (columns R)"
proof -
  define grouped where "grouped = withColumnRenamed (''count('' @ c @ '')'') ''count'' (groupBy_count k c R)"
  define joined where "joined = outer_join_on k R grouped"
  define rating_all where
    "rating_all = withColumn ''splitPoint'' (\<lambda>r. split_point ratio (cell r ''count'')) joined"
  define ranked where "ranked = select_row_number k ord ''rank'' rating_all"
  from rs have res: "resolvable (columns joined) ''count''" "resolvable (columns ranked) ''rank''"
    and tr: "tr = where_rows (\<lambda>r. val_gt (cell r ''rank'') (cell r ''splitPoint'')) ranked"
    and te: "te = where_rows (\<lambda>r. val_le (cell r ''rank'') (cell r ''splitPoint'')) ranked"
    unfolding rank_split_def Let_def grouped_def joined_def rating_all_def ranked_def
    by (auto split: if_splits)
  let ?n = "\<lambda>g. IntV (int (count_in_group k c (rows R) g))"
  have grows: "rows grouped = map (\<lambda>g. [(k, g), (''count'', ?n g)]) (group_keys k (rows R))"
    unfolding grouped_def using names(1)
    by (simp add: withColumnRenamed_def groupBy_count_def comp_def)
  have gcols: "columns grouped = [k, ''count'']"
    unfolding grouped_def using names(1)
    by (simp add: withColumnRenamed_def groupBy_count_def)
  have jrows: "rows joined = map (\<lambda>l. l @ [(''count'', ?n (cell l k))]) (rows R)"
  proof -
    have "rows joined = map (\<lambda>l. (k, cell l k) # AList.delete k l @ [(''count'', ?n (cell l k))]) (rows R)"
      unfolding joined_def by (rule outer_join_counts_rows [OF grows names(2) nonnull])
    also have "\<dots> = map (\<lambda>l. l @ [(''count'', ?n (cell l k))]) (rows R)"
    proof (rule map_cong [OF refl])
      fix l assume "l \<in> set (rows R)"
      with rejoin have "(k, cell l k) # AList.delete k l = l" by blast
      then have "((k, cell l k) # AList.delete k l) @ [(''count'', ?n (cell l k))]
                 = l @ [(''count'', ?n (cell l k))]" by (simp only:)
      then show "(k, cell l k) # AList.delete k l @ [(''count'', ?n (cell l k))]
                 = l @ [(''count'', ?n (cell l k))]" by simp
    qed
    finally show ?thesis .
  qed
  have jcols: "columns joined = columns R @ [''count'']"
    unfolding joined_def outer_join_on_def
    using names(2) cols by (simp add: join_on_def gcols)
  from res(1) show fresh_count: "''count'' \<notin> set (columns R)"
    by (simp add: jcols resolvable_appended)
  have acols: "columns rating_all
      = columns R @ ''count'' # (if ''splitPoint'' \<in> set (columns R) then [] else [''splitPoint''])"
    by (simp add: rating_all_def withColumn_def jcols)
  from res(2) have "''rank'' \<notin> set (columns rating_all)"
    by (simp add: ranked_def select_row_number_def resolvable_appended)
  then show fresh_rank: "''rank'' \<notin> set (columns R)"
    by (simp add: acols)
  have arows: "rows rating_all = map (with_count k c ratio (rows R)) (rows R)"
  proof -
    have "rows rating_all
        = map (\<lambda>l. AList.update ''splitPoint''
                 (split_point ratio (cell (l @ [(''count'', ?n (cell l k))]) ''count''))
                 (l @ [(''count'', ?n (cell l k))])) (rows R)"
      by (simp add: rating_all_def withColumn_def jrows comp_def)
    also have "\<dots> = map (with_count k c ratio (rows R)) (rows R)"
    proof (rule map_cong [OF refl])
      fix l assume "l \<in> set (rows R)"
      then have "''count'' \<notin> fst ` set l" using fresh_count wf_keys [OF wf] by simp
      then show "AList.update ''splitPoint''
                 (split_point ratio (cell (l @ [(''count'', ?n (cell l k))]) ''count''))
                 (l @ [(''count'', ?n (cell l k))]) = with_count k c ratio (rows R) l"
        by (simp add: with_count_def cell_append_new)
    qed
    finally show ?thesis .
  qed
  have key: "\<forall>l. cell (with_count k c ratio (rows R) l) k = cell l k"
    using names(2,3) by (simp add: cell_with_count_key)
  have gk: "group_keys k (rows rating_all) = group_keys k (rows R)"
    unfolding arows by (rule group_keys_map [OF key])
  have part: "partition_of k (rows rating_all) g
      = map (with_count k c ratio (rows R)) (partition_of k (rows R) g)" for g
    unfolding arows by (rule partition_of_map [OF key])
  have 1: "\<forall>r\<in>set (rows rating_all). ''rank'' \<notin> fst ` set r"
  proof
    fix r assume "r \<in> set (rows rating_all)"
    then obtain l where l: "l \<in> set (rows R)" and r: "r = with_count k c ratio (rows R) l"
      unfolding arows by auto
    from l have "''rank'' \<notin> fst ` set l" using fresh_rank wf_keys [OF wf] by simp
    then show "''rank'' \<notin> fst ` set r"
      unfolding r with_count_def AList.dom_update by auto
  qed
  let ?q = "\<lambda>g. (of_int (bround (double_times (of_int (int (count_in_group k c (rows R) g))) ratio)) :: rat)"
  have 2: "\<forall>g\<in>set (group_keys k (rows rating_all)). \<forall>r\<in>set (partition_of k (rows rating_all) g).
           \<forall>v. num_of ((\<lambda>r. cell r ''splitPoint'') (r @ [(''rank'', v)])) = Some (?q g)"
  proof (intro ballI allI)
    fix g r v
    assume "r \<in> set (partition_of k (rows rating_all) g)"
    then obtain l where l: "l \<in> set (partition_of k (rows R) g)"
      and r: "r = with_count k c ratio (rows R) l"
      unfolding part by auto
    from l have "cell l k = g" by (rule partition_key)
    then show "num_of ((\<lambda>r. cell r ''splitPoint'') (r @ [(''rank'', v)])) = Some (?q g)"
      unfolding r by (simp add: cell_append_other with_count_def cell_update split_point_def)
  qed
  show "rows te = concat (map (\<lambda>g. take (held_out False ratio sample (count_in_group k c (rows R) g))
                                   (ranked_block ord False k c ratio (rows R) g))
                        (group_keys k (rows R)))"
    unfolding te ranked_def using ranked_where_le [OF 1 ord 2]
    by (simp add: gk part held_out_def ranked_block_def)
  show "rows tr = concat (map (\<lambda>g. drop (held_out False ratio sample (count_in_group k c (rows R) g))
                                   (ranked_block ord False k c ratio (rows R) g))
                        (group_keys k (rows R)))"
    unfolding tr ranked_def using ranked_where_gt [OF 1 ord 2]
    by (simp add: gk part held_out_def ranked_block_def)
  show "columns te = columns R @ ''count'' # (if ''splitPoint'' \<in> set (columns R) then [] else [''splitPoint'']) @ [''rank'']"
    by (simp add: te where_rows_def ranked_def select_row_number_def acols)
  show "columns tr = columns te"
    by (simp add: te tr where_rows_def)
qed

subsection \<open>The filtered frame as input of the rank split\<close>

lemma removeAll_absorb: "removeAll a (removeAll b (removeAll a xs)) = removeAll b (removeAll a xs)"
  by (induction xs) auto

lemma delete_absorb:
  "AList.delete a (AList.delete b (AList.delete a r)) = AList.delete b (AList.delete a r)"
  by (induction r) auto

lemma filtered_frame_facts:
  assumes "min_rating_filter self m b = Inr R"
  shows "\<forall>l\<in>set (rows R). cell l (split_by_column b) \<noteq> Null"
    and "\<forall>l\<in>set (rows R). (split_by_column b, cell l (split_by_column b))
                                 # AList.delete (split_by_column b) l = l"
    and "columns R = split_by_column b # removeAll (split_by_column b) (columns R)"
proof -
  let ?k = "split_by_column b" and ?nw = "''n'' @ split_with_column b"
  note kn = names_distinct(1) [of b]
  show "\<forall>l\<in>set (rows R). cell l ?k \<noteq> Null"
  proof
    fix l assume "l \<in> set (rows R)"
    from min_rating_filter_rows_from [OF assms this] obtain r where
      "l = filtered_row ?k ?nw r" "retained ?k (split_with_column b) (rows self) m (cell r ?k)"
      by blast
    then show "cell l ?k \<noteq> Null"
      by (simp add: filtered_row_def cell_Cons retained_def)
  qed
  show "\<forall>l\<in>set (rows R). (?k, cell l ?k) # AList.delete ?k l = l"
  proof
    fix l assume "l \<in> set (rows R)"
    from min_rating_filter_rows_from [OF assms this] obtain r where
      l: "l = filtered_row ?k ?nw r" by blast
    show "(?k, cell l ?k) # AList.delete ?k l = l"
      unfolding l using kn
      by (simp add: filtered_row_def cell_Cons delete_absorb)
  qed
  show "columns R = ?k # removeAll ?k (columns R)"
    using kn by (simp add: min_rating_filter_Inr(1) [OF assms] removeAll_absorb)
qed

lemma key_names:
  "split_by_column b \<noteq> ''count''" "split_by_column b \<noteq> ''splitPoint''"
  "split_by_column b \<noteq> ''rank''" "split_by_column b \<noteq> ''timeStamp''"
  "split_by_column b \<noteq> ''count(timeStamp)''" "split_by_column b \<noteq> ''count('' @ ''timeStamp'' @ '')''"
  "split_with_column b \<noteq> ''count''" "split_with_column b \<noteq> ''splitPoint''"
  "split_with_column b \<noteq> ''rank''" "split_with_column b \<noteq> ''timeStamp''"
  "''timeStamp'' \<noteq> ''n'' @ split_with_column b"
  by (simp_all add: split_by_column_def split_with_column_def)

text \<open>Both modes of the rank split at once.\<close>

lemma rank_split_rows:
  assumes rs: "rank_split ord (split_by_column b) c R ratio fixed sample = Inr (tr, te)"
    and R: "min_rating_filter self m b = Inr R"
    and wf: "wf_frame self"
    and ord: "\<forall>xs. mset (ord xs) = mset xs"
    and c: "split_by_column b \<noteq> ''count('' @ c @ '')''"
  shows "rows te = concat (map (\<lambda>g. take (held_out fixed ratio sample
                                             (count_in_group (split_by_column b) c (rows R) g))
                                   (ranked_block ord fixed (split_by_column b) c ratio (rows R) g))
                        (group_keys (split_by_column b) (rows R)))"
    and "rows tr = concat (map (\<lambda>g. drop (held_out fixed ratio sample
                                             (count_in_group (split_by_column b) c (rows R) g))
                                   (ranked_block ord fixed (split_by_column b) c ratio (rows R) g))
                        (group_keys (split_by_column b) (rows R)))"
    and "columns te = columns R @ (if fixed then [] else ''count'' #
            (if ''splitPoint'' \<in> set (columns R) then [] else [''splitPoint''])) @ [''rank'']"
    and "columns tr = columns te"
proof -
  note wfR = min_rating_filter_wf [OF R wf]
  note f = filtered_frame_facts [OF R]
  show "rows te = concat (map (\<lambda>g. take (held_out fixed ratio sample
                                             (count_in_group (split_by_column b) c (rows R) g))
                                   (ranked_block ord fixed (split_by_column b) c ratio (rows R) g))
                        (group_keys (split_by_column b) (rows R)))"
  proof (cases fixed)
    case True
    with rs rank_split_fixed(1) [OF _ wfR ord] show ?thesis by simp
  next
    case False
    with rs rank_split_ratio(1) [OF _ wfR ord c key_names(1,2) f] show ?thesis by simp
  qed
  show "rows tr = concat (map (\<lambda>g. drop (held_out fixed ratio sample
                                             (count_in_group (split_by_column b) c (rows R) g))
                                   (ranked_block ord fixed (split_by_column b) c ratio (rows R) g))
                        (group_keys (split_by_column b) (rows R)))"
  proof (cases fixed)
    case True
    with rs rank_split_fixed(2) [OF _ wfR ord] show ?thesis by simp
  next
    case False
    with rs rank_split_ratio(2) [OF _ wfR ord c key_names(1,2) f] show ?thesis by simp
  qed
  show "columns te = columns R @ (if fixed then [] else ''count'' #
            (if ''splitPoint'' \<in> set (columns R) then [] else [''splitPoint''])) @ [''rank'']"
  proof (cases fixed)
    case True
    with rs rank_split_fixed(3) [OF _ wfR ord] show ?thesis by simp
  next
    case False
    with rs rank_split_ratio(3) [OF _ wfR ord c key_names(1,2) f] show ?thesis by simp
  qed
  show "columns tr = columns te"
  proof (cases fixed)
    case True
    with rs rank_split_fixed(3,4) [OF _ wfR ord] show ?thesis by simp
  next
    case False
    with rs rank_split_ratio(4) [OF _ wfR ord c key_names(1,2) f] show ?thesis by simp
  qed
qed

section \<open>The guard on the test sample, and the share of the non-overlapping split\<close>

lemma one_and_int: "(1::int) AND sample = (if odd sample then 1 else 0)"
proof -
  have "sample mod 2 = (if odd sample then 1 else 0)" by presburger
  then show ?thesis by (simp add: one_and_eq)
qed

lemma sample_guard_fixed: "sample_guard True sample min_rating \<longleftrightarrow> odd sample \<and> min_rating < 1"
  by (simp only: sample_guard_def Let_def one_and_int) simp

lemma sample_guard_ratio: "sample_guard False sample min_rating \<longleftrightarrow> even sample \<and> min_rating < 0"
  by (simp only: sample_guard_def Let_def one_and_int) simp

text \<open>
  Claim C1 (the code does not do this). A fixed-count split with \<^verbatim>\<open>min_rating = 6\<close> and
  \<^verbatim>\<open>sample = 6\<close> is not rejected: the guard is false (\<^verbatim>\<open>True & 6\<close> is 0, which is not equal
  to \<^verbatim>\<open>fixed_test_sample\<close>), and both splitters go on to return a pair, here with all but
  one of the customer's seven records in the test set. By \<open>sample_guard_fixed\<close> the guard
  fires in fixed-count mode only for an odd \<^verbatim>\<open>sample\<close> and a \<^verbatim>\<open>min_rating\<close> below 1.
\<close>

theorem sample_equal_to_min_rating_is_not_rejected:
  "\<not> sample_guard True 6 6
   \<and> (case stratified_split (\<lambda>xs. xs) (\<lambda>xs. xs) seven_ratings 6 True (3 / 10) True 6 of
         Split train test \<Rightarrow> length (rows train) = 1 \<and> length (rows test) = 6
       | _ \<Rightarrow> False)
   \<and> (case chronological_split seven_ratings 6 True (3 / 10) True 6 of
         Split train test \<Rightarrow> length (rows train) = 1 \<and> length (rows test) = 6
       | _ \<Rightarrow> False)"
  by code_simp

text \<open>
  Claim C4 (the code does not do this). With four entities, \<^verbatim>\<open>ratio = 0.25\<close> and the
  entities numbered in the order 1, 2, 3, 4 each time \<^verbatim>\<open>rating_tmp\<close> is computed, the first
  \<^verbatim>\<open>round(4 * 0.25) = 1\<close> entity is customer 1. Its records are returned as
  \<^verbatim>\<open>rating_train\<close>, and the records of the other three customers as \<^verbatim>\<open>rating_test\<close>: the
  entities numbered first are the training entities, not the held-out ones.
\<close>

theorem ratio_share_goes_to_train:
  "non_overlapping_split (\<lambda>xs. xs) (\<lambda>xs. xs) four_customers 1 True (1 / 4)
     = Split
        \<lparr>columns = [''customerID'', ''itemID'', ''rating''],
         rows = [[(''customerID'', IntV 1), (''itemID'', IntV 9), (''rating'', IntV 5)]]\<rparr>
        \<lparr>columns = [''customerID'', ''itemID'', ''rating''],
         rows = [[(''customerID'', IntV 2), (''itemID'', IntV 9), (''rating'', IntV 5)],
                 [(''customerID'', IntV 3), (''itemID'', IntV 9), (''rating'', IntV 5)],
                 [(''customerID'', IntV 4), (''itemID'', IntV 9), (''rating'', IntV 5)]]\<rparr>"
  by code_simp

section \<open>The columns of the outputs\<close>

lemma stratified_split_Split:
  assumes "stratified_split rand_train rand_test self m b ratio fixed sample = Split train test"
  shows "\<exists>R tr te. min_rating_filter self m b = Inr R
           \<and> rank_split rand_train (split_by_column b) (split_with_column b) R ratio fixed sample
               = Inr (train, te)
           \<and> rank_split rand_test (split_by_column b) (split_with_column b) R ratio fixed sample
               = Inr (tr, test)"
  using assms unfolding stratified_split_rank_split
  by (auto split: if_splits sum.splits)

lemma chronological_split_Split:
  assumes "chronological_split self m b ratio fixed sample = Split train test"
  shows "\<exists>R tr te. min_rating_filter self m b = Inr R
           \<and> resolvable (columns R) ''timeStamp''
           \<and> rank_split timeStamp_desc (split_by_column b) ''timeStamp'' R ratio fixed sample
               = Inr (tr, te)
           \<and> train = select_cols [split_by_column b, split_with_column b, ''timeStamp''] tr
           \<and> test = select_cols [split_by_column b, split_with_column b, ''timeStamp''] te"
  using assms unfolding chronological_split_rank_split
  by (auto split: if_splits sum.splits)

lemma rank_split_columns:
  assumes rs: "rank_split ord k c R ratio fixed sample = Inr (tr, te)"
    and names: "k \<noteq> ''count('' @ c @ '')''" "k \<noteq> ''count''"
    and cols: "columns R = k # removeAll k (columns R)"
  shows "columns te = columns R @ (if fixed then [] else ''count'' #
            (if ''splitPoint'' \<in> set (columns R) then [] else [''splitPoint''])) @ [''rank'']"
    and "columns tr = columns te"
proof -
  define grouped where
    "grouped = withColumnRenamed (''count('' @ c @ '')'') ''count'' (groupBy_count k c R)"
  have g: "columns grouped = [k, ''count'']"
    unfolding grouped_def using names(1) by (simp add: withColumnRenamed_def groupBy_count_def)
  have j: "columns (outer_join_on k R grouped) = columns R @ [''count'']"
    unfolding outer_join_on_def join_on_def
    using names(2) cols by (simp add: g)
  from rs have te: "columns te = columns (select_row_number k ord ''rank''
       (if fixed then R else withColumn ''splitPoint'' (\<lambda>r. split_point ratio (cell r ''count''))
          (outer_join_on k R grouped)))"
    and tr: "columns tr = columns te"
    unfolding rank_split_def Let_def grouped_def
    by (auto simp: where_rows_def split: if_splits)
  show "columns tr = columns te" by (rule tr)
  show "columns te = columns R @ (if fixed then [] else ''count'' #
            (if ''splitPoint'' \<in> set (columns R) then [] else [''splitPoint''])) @ [''rank'']"
    unfolding te by (simp add: select_row_number_def withColumn_def j)
qed

text \<open>
  Claim C10. Whenever \<^verbatim>\<open>chronological_split\<close> returns a pair, both frames have exactly
  the three columns grouping id, counterpart id and \<^verbatim>\<open>timeStamp\<close>, and so has every row
  in them: a \<^verbatim>\<open>rating\<close> column and every other column of the input are gone. Whenever
  \<^verbatim>\<open>stratified_split\<close> returns a pair, both frames have the columns of the filtered
  input (the grouping column in front, then every other input column but one named like
  the dropped count), followed by \<^verbatim>\<open>count\<close> and \<^verbatim>\<open>splitPoint\<close> in ratio mode, and by
  \<^verbatim>\<open>rank\<close>.
\<close>

theorem split_output_columns:
  "(chronological_split self min_rating by_customer ratio fixed_test_sample sample = Split train test
      \<longrightarrow> columns train = [split_by_column by_customer, split_with_column by_customer, ''timeStamp'']
        \<and> columns test = [split_by_column by_customer, split_with_column by_customer, ''timeStamp'']
        \<and> (\<forall>r \<in> set (rows train) \<union> set (rows test).
              map fst r = [split_by_column by_customer, split_with_column by_customer, ''timeStamp''])
        \<and> ''rating'' \<notin> set (columns train) \<and> ''rating'' \<notin> set (columns test))
   \<and> (stratified_split rand_train rand_test self min_rating by_customer ratio fixed_test_sample sample
         = Split train' test'
      \<longrightarrow> columns train' = columns test'
        \<and> columns test'
            = (split_by_column by_customer
                # removeAll (''n'' @ split_with_column by_customer)
                    (removeAll (split_by_column by_customer) (columns self)))
              @ (if fixed_test_sample then []
                 else ''count'' # (if ''splitPoint'' \<in> set (columns self) then [] else [''splitPoint'']))
              @ [''rank'']
        \<and> (\<forall>c \<in> set (columns self). c \<noteq> ''n'' @ split_with_column by_customer
              \<longrightarrow> c \<in> set (columns test')))"
proof (intro conjI impI)
  assume "chronological_split self min_rating by_customer ratio fixed_test_sample sample
            = Split train test"
  from chronological_split_Split [OF this] obtain tr te where
    t: "train = select_cols [split_by_column by_customer, split_with_column by_customer, ''timeStamp''] tr"
       "test = select_cols [split_by_column by_customer, split_with_column by_customer, ''timeStamp''] te"
    by blast
  show "columns train = [split_by_column by_customer, split_with_column by_customer, ''timeStamp'']"
    "columns test = [split_by_column by_customer, split_with_column by_customer, ''timeStamp'']"
    by (simp_all add: t select_cols_def)
  show "\<forall>r \<in> set (rows train) \<union> set (rows test).
              map fst r = [split_by_column by_customer, split_with_column by_customer, ''timeStamp'']"
    by (auto simp: t select_cols_def)
  show "''rating'' \<notin> set (columns train)" "''rating'' \<notin> set (columns test)"
    by (simp_all add: t select_cols_def split_by_column_def split_with_column_def)
next
  assume s: "stratified_split rand_train rand_test self min_rating by_customer ratio
               fixed_test_sample sample = Split train' test'"
  from stratified_split_Split [OF s] obtain R tr te where
    R: "min_rating_filter self min_rating by_customer = Inr R"
    and rs_train: "rank_split rand_train (split_by_column by_customer) (split_with_column by_customer)
               R ratio fixed_test_sample sample = Inr (train', te)"
    and rs_test: "rank_split rand_test (split_by_column by_customer) (split_with_column by_customer)
               R ratio fixed_test_sample sample = Inr (tr, test')"
    by blast
  note c' = rank_split_columns [OF rs_train names_distinct(2) key_names(1)
      filtered_frame_facts(3) [OF R]]
  note c = rank_split_columns [OF rs_test names_distinct(2) key_names(1)
      filtered_frame_facts(3) [OF R]]
  note cR = min_rating_filter_Inr(1) [OF R]
  show "columns train' = columns test'" unfolding c'(2) c'(1) c(1) by (rule refl)
  have sp: "''splitPoint'' \<in> set (columns R) \<longleftrightarrow> ''splitPoint'' \<in> set (columns self)"
    unfolding cR by (auto simp: split_by_column_def split_with_column_def)
  show cols: "columns test'
            = (split_by_column by_customer
                # removeAll (''n'' @ split_with_column by_customer)
                    (removeAll (split_by_column by_customer) (columns self)))
              @ (if fixed_test_sample then []
                 else ''count'' # (if ''splitPoint'' \<in> set (columns self) then [] else [''splitPoint'']))
              @ [''rank'']"
    unfolding c(1) sp unfolding cR by simp
  show "\<forall>c \<in> set (columns self). c \<noteq> ''n'' @ split_with_column by_customer
              \<longrightarrow> c \<in> set (columns test')"
    unfolding cols by auto
qed

lemma Split_cases:
  "(case out of Split a b \<Rightarrow> True | _ \<Rightarrow> False) \<Longrightarrow> \<exists>a b. out = Split a b"
  by (cases out) auto

theorem split_output_columns_witness:
  "(\<exists>train test. chronological_split seven_ratings 2 True (3 / 10) False 3 = Split train test
       \<and> columns train = [''customerID'', ''itemID'', ''timeStamp'']
       \<and> columns test = [''customerID'', ''itemID'', ''timeStamp''])
   \<and> (\<exists>train test. stratified_split (\<lambda>xs. xs) (\<lambda>xs. xs) seven_ratings 2 True (3 / 10) False 3 = Split train test
       \<and> columns train = [''customerID'', ''itemID'', ''rating'', ''timeStamp'', ''count'',
                           ''splitPoint'', ''rank'']
       \<and> columns test = columns train)"
proof -
  have "case chronological_split seven_ratings 2 True (3 / 10) False 3 of
          Split a b \<Rightarrow> True | _ \<Rightarrow> False"
    by code_simp
  from Split_cases [OF this] obtain train test where
    c: "chronological_split seven_ratings 2 True (3 / 10) False 3 = Split train test" by blast
  have "case stratified_split (\<lambda>xs. xs) (\<lambda>xs. xs) seven_ratings 2 True (3 / 10) False 3 of
          Split a b \<Rightarrow> True | _ \<Rightarrow> False"
    by code_simp
  from Split_cases [OF this] obtain train' test' where
    s: "stratified_split (\<lambda>xs. xs) (\<lambda>xs. xs) seven_ratings 2 True (3 / 10) False 3 = Split train' test'" by blast
  have cols: "(split_by_column True
                # removeAll (''n'' @ split_with_column True)
                    (removeAll (split_by_column True) (columns seven_ratings)))
              @ (if False then []
                 else ''count'' # (if ''splitPoint'' \<in> set (columns seven_ratings) then [] else [''splitPoint'']))
              @ [''rank'']
         = [''customerID'', ''itemID'', ''rating'', ''timeStamp'', ''count'', ''splitPoint'', ''rank'']"
    by code_simp
  have k: "[split_by_column True, split_with_column True, ''timeStamp'']
         = [''customerID'', ''itemID'', ''timeStamp'']"
    by code_simp
  from split_output_columns [of seven_ratings 2 True "3 / 10" False 3 train test "\<lambda>xs. xs" "\<lambda>xs. xs"
      train' test']
    c s
  have "columns train = [split_by_column True, split_with_column True, ''timeStamp'']"
    "columns test = [split_by_column True, split_with_column True, ''timeStamp'']"
    "columns train' = columns test'"
    "columns test' = (split_by_column True
                # removeAll (''n'' @ split_with_column True)
                    (removeAll (split_by_column True) (columns seven_ratings)))
              @ (if False then []
                 else ''count'' # (if ''splitPoint'' \<in> set (columns seven_ratings) then [] else [''splitPoint'']))
              @ [''rank'']"
    by blast+
  with c s show ?thesis unfolding cols k by auto
qed

section \<open>How many records of a group are held out\<close>

subsection \<open>Rounding\<close>

text \<open>\<open>bround\<close> rounds as the specification says, and no other integer does.\<close>

lemma bround_rounds_to: "rounds_to x (bround x)"
proof -
  define f where "f = \<lfloor>x\<rfloor>"
  define d where "d = x - of_int f"
  have d: "0 \<le> d" "d < 1" unfolding d_def f_def by linarith+
  have x: "x = of_int f + d" by (simp add: d_def)
  have b: "bround x = (if d < 1 / 2 then f else if 1 / 2 < d then f + 1
                        else if even f then f else f + 1)"
    unfolding bround_def Let_def d_def f_def by (rule refl)
  consider "d < 1 / 2" | "1 / 2 < d" | "d = 1 / 2" "even f" | "d = 1 / 2" "odd f" by fastforce
  then show ?thesis
  proof cases
    case 1
    with b have "bround x = f" by simp
    with 1 d show ?thesis by (simp add: rounds_to_def x)
  next
    case 2
    with b have "bround x = f + 1" by simp
    with 2 d show ?thesis by (simp add: rounds_to_def x)
  next
    case 3
    with b have "bround x = f" by simp
    with 3 show ?thesis by (simp add: rounds_to_def x)
  next
    case 4
    with b have "bround x = f + 1" by simp
    with 4 show ?thesis by (simp add: rounds_to_def x)
  qed
qed

lemma rounds_to_unique:
  assumes "rounds_to x h" "rounds_to x h'"
  shows "h = h'"
proof (rule ccontr)
  assume ne: "h \<noteq> h'"
  from assms have a: "\<bar>of_int h - x\<bar> \<le> 1 / 2" "\<bar>of_int h' - x\<bar> \<le> 1 / 2"
    by (simp_all add: rounds_to_def)
  then have "\<bar>(of_int h :: rat) - of_int h'\<bar> \<le> 1" by linarith
  then have "\<bar>h - h'\<bar> \<le> 1" by (metis of_int_abs of_int_diff of_int_le_1_iff)
  with ne have d: "h = h' + 1 \<or> h' = h + 1" by linarith
  then have "\<bar>of_int h - x\<bar> = 1 / 2 \<and> \<bar>of_int h' - x\<bar> = 1 / 2"
    using a by (auto simp: abs_if split: if_splits)
  with assms have "even h" "even h'" by (simp_all add: rounds_to_def)
  with d show False by auto
qed

subsection \<open>Doubles\<close>

text \<open>\<open>binade x\<close> is the exponent of the power of two at or below \<open>\<bar>x\<bar>\<close>, and
  \<open>double_of x\<close> is a significand of at most 53 bits times the spacing of the doubles around
  \<open>x\<close>, the significand being the quotient of \<open>x\<close> by that spacing, rounded.\<close>

lemma pow2_powi: "pow2 e = 2 powi e"
  by (simp add: pow2_def power_int_def inverse_eq_divide power_one_over)

lemma pow2_pos: "0 < pow2 e"
  by (simp add: pow2_powi)

lemma pow2_diff: "pow2 (a - b) = pow2 a / pow2 b"
  by (simp add: pow2_powi power_int_diff)

lemma pow2_bitlen:
  assumes "0 < p"
  shows "pow2 (bitlen p - 1) \<le> of_int p" "of_int p < pow2 (bitlen p)"
proof -
  from bitlen_bounds [OF assms] have b: "2 ^ nat (bitlen p - 1) \<le> p" "p < 2 ^ nat (bitlen p)"
    by simp_all
  have pos: "0 < bitlen p"
  proof (rule ccontr)
    assume "\<not> 0 < bitlen p"
    then have "nat (bitlen p) = 0" by simp
    with b(2) assms show False by simp
  qed
  from b(1) have "(of_int (2 ^ nat (bitlen p - 1)) :: rat) \<le> of_int p" by (simp only: of_int_le_iff)
  then show "pow2 (bitlen p - 1) \<le> of_int p" using pos by (simp add: pow2_def)
  from b(2) have "(of_int p :: rat) < of_int (2 ^ nat (bitlen p))" by (simp only: of_int_less_iff)
  then show "of_int p < pow2 (bitlen p)" using pos by (simp add: pow2_def)
qed

lemma binade_bounds:
  assumes "x \<noteq> 0"
  shows "pow2 (binade x) \<le> \<bar>x\<bar>" "\<bar>x\<bar> < pow2 (binade x + 1)"
proof -
  obtain p q where pq: "quotient_of \<bar>x\<bar> = (p, q)" by (cases "quotient_of \<bar>x\<bar>")
  then have q: "0 < q" and x: "\<bar>x\<bar> = of_int p / of_int q"
    by (simp_all add: quotient_of_denom_pos quotient_of_div)
  from assms have "0 < \<bar>x\<bar>" by simp
  with x q have p: "0 < p" by (simp add: zero_less_divide_iff)
  define d where "d = bitlen p - bitlen q"
  note bp = pow2_bitlen [OF p] and bq = pow2_bitlen [OF q]
  have qpos: "(0::rat) < of_int q" using q by simp
  have lo: "pow2 (d - 1) \<le> \<bar>x\<bar>"
  proof -
    have "pow2 (d - 1) = pow2 (bitlen p - 1) / pow2 (bitlen q)"
      unfolding d_def using pow2_diff [of "bitlen p - 1" "bitlen q"] by (simp add: algebra_simps)
    also have "\<dots> \<le> of_int p / of_int q"
      using bp(1) bq(2) qpos pow2_pos [of "bitlen p - 1"]
      by (intro frac_le) (simp_all add: less_imp_le)
    finally show ?thesis by (simp add: x)
  qed
  have hi: "\<bar>x\<bar> < pow2 (d + 1)"
  proof -
    have "of_int p / of_int q < pow2 (bitlen p) / pow2 (bitlen q - 1)"
      using bp(2) bq(1) qpos pow2_pos [of "bitlen q - 1"] p
      by (intro frac_less) simp_all
    also have "\<dots> = pow2 (d + 1)"
      unfolding d_def using pow2_diff [of "bitlen p" "bitlen q - 1"] by (simp add: algebra_simps)
    finally show ?thesis by (simp add: x)
  qed
  have b: "binade x = (if pow2 d \<le> \<bar>x\<bar> then d else d - 1)"
    by (simp add: binade_def pq d_def Let_def)
  show "pow2 (binade x) \<le> \<bar>x\<bar>" using lo by (simp add: b)
  show "\<bar>x\<bar> < pow2 (binade x + 1)" using hi by (simp add: b not_le)
qed

lemma pow2_add: "pow2 (a + b) = pow2 a * pow2 b"
  by (simp add: pow2_powi power_int_add)

lemma pow2_mono: "a \<le> b \<Longrightarrow> pow2 a \<le> pow2 b"
  by (simp add: pow2_powi power_int_increasing)

lemma double_of_significand:
  assumes "x \<noteq> 0"
  shows "\<exists>m. double_of x = of_int m * pow2 (max (binade x - 52) (- 1074))
           \<and> rounds_to (x / pow2 (max (binade x - 52) (- 1074))) m \<and> \<bar>m\<bar> \<le> 2 ^ 53"
proof -
  define e where "e = max (binade x - 52) (- 1074)"
  define m where "m = bround (x / pow2 e)"
  have d: "double_of x = of_int m * pow2 e"
    using assms by (simp add: double_of_def Let_def e_def m_def)
  have r: "rounds_to (x / pow2 e) m" unfolding m_def by (rule bround_rounds_to)
  have "\<bar>x\<bar> < pow2 (binade x + 1)" by (rule binade_bounds(2) [OF assms])
  also have "\<dots> \<le> pow2 (e + 53)" by (rule pow2_mono) (simp add: e_def)
  also have "\<dots> = pow2 e * pow2 53" by (rule pow2_add)
  also have "pow2 53 = 2 ^ 53" by (simp add: pow2_def)
  finally have "\<bar>x\<bar> / pow2 e < 2 ^ 53"
    using pow2_pos [of e] by (simp add: pos_divide_less_eq mult.commute)
  then have y: "\<bar>x / pow2 e\<bar> < 2 ^ 53" using pow2_pos [of e] by (simp add: abs_divide)
  from r have "\<bar>of_int m - x / pow2 e\<bar> \<le> 1 / 2" by (simp add: rounds_to_def)
  with y have "\<bar>(of_int m :: rat)\<bar> < 2 ^ 53 + 1" by linarith
  then have "(of_int \<bar>m\<bar> :: rat) < of_int (2 ^ 53 + 1)" by simp
  then have "\<bar>m\<bar> < 2 ^ 53 + 1" by (simp only: of_int_less_iff)
  then have "\<bar>m\<bar> \<le> 2 ^ 53" by simp
  with d r show ?thesis unfolding e_def by blast
qed

text \<open>The double product at some points where it is not the exact product: \<^verbatim>\<open>45 * 0.7\<close>
  is the double just below 31.5 and rounds to 31, \<^verbatim>\<open>5 * 0.3\<close> is the double 1.5 and rounds to
  2, and \<^verbatim>\<open>7 * 0.7\<close> is the double just below 4.9.\<close>

lemma double_times_examples:
  "double_of (7 / 10) = 6305039478318694 / 2 ^ 53"
  "double_times 45 (7 / 10) = 63 / 2 - 1 / 2 ^ 48" "bround (double_times 45 (7 / 10)) = 31"
  "double_times 5 (3 / 10) = 3 / 2" "bround (double_times 5 (3 / 10)) = 2"
  "double_times 7 (7 / 10) = 5516909543528857 / 2 ^ 50" "bround (double_times 7 (7 / 10)) = 5"
  "double_times 4 (1 / 4) = 1" "double_times 2 (1 / 2) = 1"
  by code_simp+

subsection \<open>The ranked blocks\<close>

lemma mset_ord_length: "\<forall>xs. mset (ord xs) = mset xs \<Longrightarrow> length (ord xs) = length xs"
  by (metis size_mset)

lemma mset_ord_set: "\<forall>xs. mset (ord xs) = mset xs \<Longrightarrow> set (ord xs) = set xs"
  by (metis set_mset_mset)

lemma annot_key:
  "cell ((if fixed then (\<lambda>l. l) else with_count (split_by_column b) c ratio rs) l) (split_by_column b)
     = cell l (split_by_column b)"
  by (simp add: cell_with_count_key key_names)

lemma length_ranked_block:
  assumes "\<forall>xs. mset (ord xs) = mset xs"
  shows "length (ranked_block ord fixed k c ratio rs g) = length (partition_of k rs g)"
  by (simp add: ranked_block_def mset_ord_length [OF assms])

lemma ranked_block_key:
  assumes "\<forall>xs. mset (ord xs) = mset xs"
    and "r \<in> set (ranked_block ord fixed (split_by_column b) c ratio rs g)"
  shows "cell r (split_by_column b) = g"
proof -
  from number_from_rows [OF assms(2) [unfolded ranked_block_def]]
  obtain x j where x: "x \<in> set (ord (map (if fixed then (\<lambda>l. l)
        else with_count (split_by_column b) c ratio rs) (partition_of (split_by_column b) rs g)))"
    and r: "r = x @ [(''rank'', IntV j)]" by blast
  from x obtain l where l: "l \<in> set (partition_of (split_by_column b) rs g)"
    and xl: "x = (if fixed then (\<lambda>l. l) else with_count (split_by_column b) c ratio rs) l"
    unfolding mset_ord_set [OF assms(1)] by auto
  have "cell r (split_by_column b) = cell x (split_by_column b)"
    unfolding r by (simp add: cell_append_other key_names)
  also have "\<dots> = cell l (split_by_column b)" unfolding xl by (rule annot_key)
  also have "\<dots> = g" using l by (rule partition_key)
  finally show ?thesis .
qed

lemma partition_taken:
  assumes "\<forall>xs. mset (ord xs) = mset xs"
    and "g \<in> set (group_keys (split_by_column b) rs)"
  shows "partition_of (split_by_column b)
           (concat (map (\<lambda>g. take (h g) (ranked_block ord fixed (split_by_column b) c ratio rs g))
                        (group_keys (split_by_column b) rs))) g
         = take (h g) (ranked_block ord fixed (split_by_column b) c ratio rs g)"
proof -
  have "filter (\<lambda>r. cell r (split_by_column b) = g)
          (concat (map (\<lambda>g. take (h g) (ranked_block ord fixed (split_by_column b) c ratio rs g))
                        (group_keys (split_by_column b) rs)))
      = (if g \<in> set (group_keys (split_by_column b) rs)
         then take (h g) (ranked_block ord fixed (split_by_column b) c ratio rs g) else [])"
  proof (rule filter_concat_blocks [OF distinct_group_keys], intro ballI)
    fix g' r
    assume "r \<in> set (take (h g') (ranked_block ord fixed (split_by_column b) c ratio rs g'))"
    then have "r \<in> set (ranked_block ord fixed (split_by_column b) c ratio rs g')"
      by (rule in_set_takeD)
    then show "cell r (split_by_column b) = g'" by (rule ranked_block_key [OF assms(1)])
  qed
  with assms(2) show ?thesis by (simp add: partition_of_def)
qed

lemma partition_dropped:
  assumes "\<forall>xs. mset (ord xs) = mset xs"
    and "g \<in> set (group_keys (split_by_column b) rs)"
  shows "partition_of (split_by_column b)
           (concat (map (\<lambda>g. drop (h g) (ranked_block ord fixed (split_by_column b) c ratio rs g))
                        (group_keys (split_by_column b) rs))) g
         = drop (h g) (ranked_block ord fixed (split_by_column b) c ratio rs g)"
proof -
  have "filter (\<lambda>r. cell r (split_by_column b) = g)
          (concat (map (\<lambda>g. drop (h g) (ranked_block ord fixed (split_by_column b) c ratio rs g))
                        (group_keys (split_by_column b) rs)))
      = (if g \<in> set (group_keys (split_by_column b) rs)
         then drop (h g) (ranked_block ord fixed (split_by_column b) c ratio rs g) else [])"
  proof (rule filter_concat_blocks [OF distinct_group_keys], intro ballI)
    fix g' r
    assume "r \<in> set (drop (h g') (ranked_block ord fixed (split_by_column b) c ratio rs g'))"
    then have "r \<in> set (ranked_block ord fixed (split_by_column b) c ratio rs g')"
      by (rule in_set_dropD)
    then show "cell r (split_by_column b) = g'" by (rule ranked_block_key [OF assms(1)])
  qed
  with assms(2) show ?thesis by (simp add: partition_of_def)
qed

lemma cell_returned_row_key:
  "cell (returned_row s b r) (split_by_column b) = cell r (split_by_column b)"
  by (cases s) (simp_all add: three_columns_def cell_Cons)

lemma map_returned_row_Stratified: "map (returned_row (Stratified rand_train rand_test) b) xs = xs"
  by (induction xs) auto

lemma rank_based_split_rows:
  assumes split: "rank_based_split s self m b ratio fixed sample = Split train test"
    and wf: "wf_frame self"
    and ord_train: "\<forall>xs. mset (train_window s xs) = mset xs"
    and ord_test: "\<forall>xs. mset (test_window s xs) = mset xs"
    and R: "min_rating_filter self m b = Inr R"
  shows "rows test = map (returned_row s b)
           (concat (map (\<lambda>g. take (held_out fixed ratio sample
                                      (count_in_group (split_by_column b) (counted_column s b) (rows R) g))
                             (ranked_block (test_window s) fixed (split_by_column b)
                                (counted_column s b) ratio (rows R) g))
                        (group_keys (split_by_column b) (rows R))))"
    and "rows train = map (returned_row s b)
           (concat (map (\<lambda>g. drop (held_out fixed ratio sample
                                      (count_in_group (split_by_column b) (counted_column s b) (rows R) g))
                             (ranked_block (train_window s) fixed (split_by_column b)
                                (counted_column s b) ratio (rows R) g))
                        (group_keys (split_by_column b) (rows R))))"
proof -
  have "rows test = map (returned_row s b)
           (concat (map (\<lambda>g. take (held_out fixed ratio sample
                                      (count_in_group (split_by_column b) (counted_column s b) (rows R) g))
                             (ranked_block (test_window s) fixed (split_by_column b)
                                (counted_column s b) ratio (rows R) g))
                        (group_keys (split_by_column b) (rows R))))
      \<and> rows train = map (returned_row s b)
           (concat (map (\<lambda>g. drop (held_out fixed ratio sample
                                      (count_in_group (split_by_column b) (counted_column s b) (rows R) g))
                             (ranked_block (train_window s) fixed (split_by_column b)
                                (counted_column s b) ratio (rows R) g))
                        (group_keys (split_by_column b) (rows R))))"
  proof (cases s)
    case (Stratified rand_train rand_test)
    with split have "stratified_split rand_train rand_test self m b ratio fixed sample
        = Split train test" by simp
    from stratified_split_Split [OF this] R obtain tr te where
      rs_train: "rank_split rand_train (split_by_column b) (split_with_column b) R ratio fixed sample
               = Inr (train, te)"
      and rs_test: "rank_split rand_test (split_by_column b) (split_with_column b) R ratio fixed sample
               = Inr (tr, test)" by auto
    from ord_train Stratified have o_train: "\<forall>xs. mset (rand_train xs) = mset xs" by simp
    from ord_test Stratified have o_test: "\<forall>xs. mset (rand_test xs) = mset xs" by simp
    note r_train = rank_split_rows(2) [OF rs_train R wf o_train names_distinct(2)]
    note r_test = rank_split_rows(1) [OF rs_test R wf o_test names_distinct(2)]
    show ?thesis
      unfolding Stratified map_returned_row_Stratified
      using r_train r_test by simp
  next
    case Chronological
    with split have "chronological_split self m b ratio fixed sample = Split train test" by simp
    from chronological_split_Split [OF this] R obtain tr te where
      rs: "rank_split timeStamp_desc (split_by_column b) ''timeStamp'' R ratio fixed sample = Inr (tr, te)"
      and t: "train = select_cols [split_by_column b, split_with_column b, ''timeStamp''] tr"
             "test = select_cols [split_by_column b, split_with_column b, ''timeStamp''] te"
      by auto
    from ord_test Chronological have o: "\<forall>xs. mset (timeStamp_desc xs) = mset xs" by simp
    note rr = rank_split_rows(1,2) [OF rs R wf o key_names(6)]
    have sel: "rows (select_cols [split_by_column b, split_with_column b, ''timeStamp''] df)
        = map (returned_row Chronological b) (rows df)" for df
      by (simp add: select_cols_def three_columns_def)
    show ?thesis
      unfolding Chronological t sel
      using rr by simp
  qed
  then show "rows test = map (returned_row s b)
           (concat (map (\<lambda>g. take (held_out fixed ratio sample
                                      (count_in_group (split_by_column b) (counted_column s b) (rows R) g))
                             (ranked_block (test_window s) fixed (split_by_column b)
                                (counted_column s b) ratio (rows R) g))
                        (group_keys (split_by_column b) (rows R))))"
    and "rows train = map (returned_row s b)
           (concat (map (\<lambda>g. drop (held_out fixed ratio sample
                                      (count_in_group (split_by_column b) (counted_column s b) (rows R) g))
                             (ranked_block (train_window s) fixed (split_by_column b)
                                (counted_column s b) ratio (rows R) g))
                        (group_keys (split_by_column b) (rows R))))"
    by blast+
qed

lemma partition_of_returned:
  "partition_of (split_by_column b) (map (returned_row s b) xs) g
     = map (returned_row s b) (partition_of (split_by_column b) xs g)"
  by (simp add: partition_of_def filter_map comp_def cell_returned_row_key)

text \<open>The group of a key in the two outputs: the first rows of the ranked block and the
  rest.\<close>

lemma rank_based_split_groups:
  assumes split: "rank_based_split s self m b ratio fixed sample = Split train test"
    and wf: "wf_frame self"
    and ord_train: "\<forall>xs. mset (train_window s xs) = mset xs"
    and ord_test: "\<forall>xs. mset (test_window s xs) = mset xs"
    and R: "min_rating_filter self m b = Inr R"
    and g: "g \<in> set (group_keys (split_by_column b) (rows R))"
  shows "partition_of (split_by_column b) (rows test) g
       = map (returned_row s b)
           (take (held_out fixed ratio sample
                    (count_in_group (split_by_column b) (counted_column s b) (rows R) g))
              (ranked_block (test_window s) fixed (split_by_column b) (counted_column s b) ratio
                 (rows R) g))"
    and "partition_of (split_by_column b) (rows train) g
       = map (returned_row s b)
           (drop (held_out fixed ratio sample
                    (count_in_group (split_by_column b) (counted_column s b) (rows R) g))
              (ranked_block (train_window s) fixed (split_by_column b) (counted_column s b) ratio
                 (rows R) g))"
  unfolding rank_based_split_rows [OF split wf ord_train ord_test R] partition_of_returned
  by (simp_all only: partition_taken [OF ord_test g] partition_dropped [OF ord_train g])

lemma retained_group_size:
  assumes R: "min_rating_filter self m b = Inr R"
    and g: "g \<in> set (group_keys (split_by_column b) (rows R))"
  shows "m \<le> int (group_size (split_by_column b) R g)"
proof -
  let ?k = "split_by_column b" and ?w = "split_with_column b"
  note rows = min_rating_filter_Inr(2) [OF R]
  have gk: "group_keys ?k (rows R) = filter (retained ?k ?w (rows self) m) (group_keys ?k (rows self))"
    unfolding rows by (rule filtered_group_keys [OF names_distinct(1)])
  with g have g': "g \<in> set (filter (retained ?k ?w (rows self) m) (group_keys ?k (rows self)))"
    by simp
  then have "m \<le> int (count_in_group ?k ?w (rows self) g)" by (simp add: retained_def)
  also have "count_in_group ?k ?w (rows self) g \<le> length (partition_of ?k (rows self) g)"
    by (simp add: count_in_group_partition)
  also have "length (partition_of ?k (rows self) g) = length (partition_of ?k (rows R) g)"
    unfolding rows using g' by (simp only: filtered_partition [OF names_distinct(1)] if_True length_map)
  finally show ?thesis by (simp add: group_size_def)
qed

lemma count_without_nulls:
  assumes R: "min_rating_filter self m b = Inr R"
    and nn: "\<forall>r\<in>set (rows self). cell r c \<noteq> Null"
    and c: "c \<noteq> ''n'' @ split_with_column b"
  shows "count_in_group (split_by_column b) c (rows R) g = group_size (split_by_column b) R g"
proof -
  have "\<forall>l\<in>set (partition_of (split_by_column b) (rows R) g). cell l c \<noteq> Null"
  proof
    fix l assume "l \<in> set (partition_of (split_by_column b) (rows R) g)"
    then have "l \<in> set (rows R)" by (simp add: partition_of_def)
    from min_rating_filter_rows_from [OF R this] obtain r where
      r: "r \<in> set (rows self)" and l: "l = filtered_row (split_by_column b) (''n'' @ split_with_column b) r"
      by blast
    have "cell l c = cell r c" unfolding l by (rule cell_filtered_row [OF names_distinct(1) c])
    with nn r show "cell l c \<noteq> Null" by simp
  qed
  then have "filter (\<lambda>r. cell r c \<noteq> Null) (partition_of (split_by_column b) (rows R) g)
           = partition_of (split_by_column b) (rows R) g"
    by (rule filter_True)
  then show ?thesis by (simp add: count_in_group_partition group_size_def)
qed

lemma counted_column_name: "counted_column s b \<noteq> ''n'' @ split_with_column b"
  by (cases s) (simp_all add: names_distinct(3) key_names(11))

lemma mset_timeStamp_desc: "mset (timeStamp_desc xs) = mset xs"
  by (simp add: timeStamp_desc_def)

text \<open>
  Claim C5, as amended. Let \<^verbatim>\<open>stratified_split\<close> or \<^verbatim>\<open>chronological_split\<close> return a pair, and
  let \<open>g\<close> be a grouping entity of the filtered frame \<open>R\<close> (an entity that survives the
  filter). In fixed-count mode with \<open>0 \<le> sample < min_rating\<close>, the test set holds exactly
  \<open>sample\<close> records of \<open>g\<close> and the train set the other \<open>groupSize - sample\<close>. In ratio
  mode, let \<open>c\<close> be the number of records of \<open>g\<close> whose counted cell (the counterpart id
  for \<^verbatim>\<open>stratified_split\<close>, the time stamp for \<^verbatim>\<open>chronological_split\<close>) is not null, and \<open>h\<close>
  the integer nearest to the double product of \<open>c\<close> and the ratio, the even one of two
  that are equally near: the test set holds \<open>h\<close> records of \<open>g\<close>, or all of them when
  there are fewer, and the train set holds \<open>groupSize - h\<close>. When the counted column of
  the input has no null, \<open>c\<close> is the size of the group. The two evaluations of the window
  only have to rearrange the rows they are given; for \<^verbatim>\<open>chronological_split\<close> that is
  \<open>mset_timeStamp_desc\<close>.
\<close>

theorem held_out_counts:
  assumes split: "rank_based_split s self min_rating by_customer ratio fixed_test_sample sample
                    = Split train test"
    and wf: "wf_frame self"
    and ord_train: "\<forall>xs. mset (train_window s xs) = mset xs"
    and ord_test: "\<forall>xs. mset (test_window s xs) = mset xs"
    and R: "min_rating_filter self min_rating by_customer = Inr R"
    and g: "g \<in> set (group_keys (split_by_column by_customer) (rows R))"
  shows "(fixed_test_sample \<and> 0 \<le> sample \<and> sample < min_rating \<longrightarrow>
            int (group_size (split_by_column by_customer) test g) = sample
          \<and> int (group_size (split_by_column by_customer) train g)
              = int (group_size (split_by_column by_customer) R g) - sample)
       \<and> (\<not> fixed_test_sample \<longrightarrow>
            (\<exists>h. rounds_to
                   (double_times
                      (of_nat (count_in_group (split_by_column by_customer)
                                 (counted_column s by_customer) (rows R) g)) ratio) h
               \<and> group_size (split_by_column by_customer) test g
                   = min (nat h) (group_size (split_by_column by_customer) R g)
               \<and> group_size (split_by_column by_customer) train g
                   = group_size (split_by_column by_customer) R g - nat h))
       \<and> ((\<forall>r \<in> set (rows self). cell r (counted_column s by_customer) \<noteq> Null) \<longrightarrow>
            count_in_group (split_by_column by_customer) (counted_column s by_customer) (rows R) g
              = group_size (split_by_column by_customer) R g)"
proof -
  let ?k = "split_by_column by_customer"
  let ?n = "group_size ?k R g"
  let ?c = "count_in_group ?k (counted_column s by_customer) (rows R) g"
  let ?h = "held_out fixed_test_sample ratio sample ?c"
  note grp = rank_based_split_groups [OF split wf ord_train ord_test R g]
  have len_test: "length (ranked_block (test_window s) fixed_test_sample ?k
                (counted_column s by_customer) ratio (rows R) g) = ?n"
    by (simp add: length_ranked_block [OF ord_test] group_size_def)
  have len_train: "length (ranked_block (train_window s) fixed_test_sample ?k
                (counted_column s by_customer) ratio (rows R) g) = ?n"
    by (simp add: length_ranked_block [OF ord_train] group_size_def)
  have te: "group_size ?k test g = min ?h ?n"
    unfolding group_size_def [of ?k test] grp(1) by (simp add: len_test min.commute)
  have tr: "group_size ?k train g = ?n - ?h"
    unfolding group_size_def [of ?k train] grp(2) by (simp add: len_train)
  have fixed: "int (group_size ?k test g) = sample \<and> int (group_size ?k train g) = int ?n - sample"
    if f: "fixed_test_sample" and s: "0 \<le> sample" "sample < min_rating"
  proof -
    have h: "?h = nat sample" using f by (simp add: held_out_def)
    have "sample < int ?n" using retained_group_size [OF R g] s(2) by simp
    with s(1) show ?thesis unfolding te tr h by simp
  qed
  have share: "\<exists>h. rounds_to (double_times (of_nat ?c) ratio) h
               \<and> group_size ?k test g = min (nat h) ?n
               \<and> group_size ?k train g = ?n - nat h"
    if f: "\<not> fixed_test_sample"
  proof (intro exI conjI)
    show "rounds_to (double_times (of_nat ?c) ratio) (bround (double_times (of_nat ?c) ratio))"
      by (rule bround_rounds_to)
    have h: "?h = nat (bround (double_times (of_nat ?c) ratio))" using f by (simp add: held_out_def)
    show "group_size ?k test g = min (nat (bround (double_times (of_nat ?c) ratio))) ?n"
      unfolding te h by (rule refl)
    show "group_size ?k train g = ?n - nat (bround (double_times (of_nat ?c) ratio))"
      unfolding tr h by (rule refl)
  qed
  have nulls: "?c = ?n" if nn: "\<forall>r \<in> set (rows self). cell r (counted_column s by_customer) \<noteq> Null"
    by (rule count_without_nulls [OF R nn counted_column_name])
  from fixed share nulls show ?thesis by blast
qed

text \<open>
  Claim C5 as stated fails where the counted column has nulls. A customer has four
  records, two of them without a time stamp. With \<^verbatim>\<open>min_rating = 4\<close> and \<^verbatim>\<open>ratio = 0.5\<close> the
  group has four records and \<^verbatim>\<open>4 * 0.5\<close> is 2, but \<^verbatim>\<open>chronological_split\<close> counts the two
  time stamps, takes \<^verbatim>\<open>bround(2 * 0.5) = 1\<close> as the split point and returns one test record
  and three train records.
\<close>

lemma min_rating_filter_two_undated: "min_rating_filter two_undated 4 True = Inr two_undated"
  by code_simp

lemma chronological_split_two_undated:
  "chronological_split two_undated 4 True (1 / 2) False 3
     = Split
         \<lparr>columns = [''customerID'', ''itemID'', ''timeStamp''],
          rows = [[(''customerID'', IntV 1), (''itemID'', IntV 5), (''timeStamp'', IntV 10)],
                  [(''customerID'', IntV 1), (''itemID'', IntV 8), (''timeStamp'', Null)],
                  [(''customerID'', IntV 1), (''itemID'', IntV 6), (''timeStamp'', Null)]]\<rparr>
         \<lparr>columns = [''customerID'', ''itemID'', ''timeStamp''],
          rows = [[(''customerID'', IntV 1), (''itemID'', IntV 7), (''timeStamp'', IntV 20)]]\<rparr>"
  by code_simp

theorem null_cells_are_not_counted:
  "\<not> (\<forall>train test R.
         chronological_split two_undated 4 True (1 / 2) False 3 = Split train test
         \<and> min_rating_filter two_undated 4 True = Inr R
         \<longrightarrow> rounds_to (of_nat (group_size ''customerID'' R (IntV 1)) * (1 / 2))
               (int (group_size ''customerID'' test (IntV 1))))"
proof
  assume "\<forall>train test R.
         chronological_split two_undated 4 True (1 / 2) False 3 = Split train test
         \<and> min_rating_filter two_undated 4 True = Inr R
         \<longrightarrow> rounds_to (of_nat (group_size ''customerID'' R (IntV 1)) * (1 / 2))
               (int (group_size ''customerID'' test (IntV 1)))"
  with chronological_split_two_undated min_rating_filter_two_undated
  have "rounds_to (of_nat (group_size ''customerID'' two_undated (IntV 1)) * (1 / 2))
          (int (group_size ''customerID''
             \<lparr>columns = [''customerID'', ''itemID'', ''timeStamp''],
              rows = [[(''customerID'', IntV 1), (''itemID'', IntV 7), (''timeStamp'', IntV 20)]]\<rparr>
             (IntV 1)))"
    by blast
  moreover have "group_size ''customerID'' two_undated (IntV 1) = 4" by code_simp
  moreover have "group_size ''customerID''
             \<lparr>columns = [''customerID'', ''itemID'', ''timeStamp''],
              rows = [[(''customerID'', IntV 1), (''itemID'', IntV 7), (''timeStamp'', IntV 20)]]\<rparr>
             (IntV 1) = 1" by code_simp
  ultimately have "rounds_to (of_nat 4 * (1 / 2)) (int 1)" by (simp only:)
  then show False by (simp add: rounds_to_def)
qed

theorem held_out_counts_witness:
  "(\<exists>train test. stratified_split (\<lambda>xs. xs) rev seven_ratings 6 True (7 / 10) False 3 = Split train test
       \<and> group_size ''customerID'' test (IntV 1) = 5
       \<and> group_size ''customerID'' train (IntV 1) = 2)
   \<and> (\<exists>train test. chronological_split seven_ratings 6 True (3 / 10) True 3 = Split train test
       \<and> int (group_size ''customerID'' test (IntV 1)) = 3
       \<and> int (group_size ''customerID'' train (IntV 1)) = 4)
   \<and> (\<exists>train test. chronological_split two_undated 4 True (1 / 2) False 3 = Split train test
       \<and> group_size ''customerID'' test (IntV 1) = 1
       \<and> group_size ''customerID'' train (IntV 1) = 3)"
proof -
  have wf: "wf_frame seven_ratings" by code_simp
  have wf': "wf_frame two_undated" by code_simp
  have R: "min_rating_filter seven_ratings 6 True = Inr seven_ratings" by code_simp
  note R' = min_rating_filter_two_undated
  have g: "IntV 1 \<in> set (group_keys (split_by_column True) (rows seven_ratings))" by code_simp
  have g': "IntV 1 \<in> set (group_keys (split_by_column True) (rows two_undated))" by code_simp
  have k: "split_by_column True = ''customerID''" by code_simp
  have n: "group_size ''customerID'' seven_ratings (IntV 1) = 7" by code_simp
  have n': "group_size ''customerID'' two_undated (IntV 1) = 4" by code_simp
  have c: "count_in_group ''customerID'' (counted_column (Stratified (\<lambda>xs. xs) rev) True)
             (rows seven_ratings) (IntV 1) = 7" by code_simp
  have c': "count_in_group ''customerID'' (counted_column Chronological True)
             (rows two_undated) (IntV 1) = 2" by code_simp
  have r5: "rounds_to (double_times (of_nat 7) (7 / 10)) 5" by code_simp
  have r1: "rounds_to (double_times (of_nat 2) (1 / 2)) 1" by code_simp
  have "case stratified_split (\<lambda>xs. xs) rev seven_ratings 6 True (7 / 10) False 3 of
          Split a b \<Rightarrow> True | _ \<Rightarrow> False"
    by code_simp
  from Split_cases [OF this] obtain train test where
    s: "stratified_split (\<lambda>xs. xs) rev seven_ratings 6 True (7 / 10) False 3 = Split train test"
    by blast
  have "case chronological_split seven_ratings 6 True (3 / 10) True 3 of
          Split a b \<Rightarrow> True | _ \<Rightarrow> False"
    by code_simp
  from Split_cases [OF this] obtain train' test' where
    t: "chronological_split seven_ratings 6 True (3 / 10) True 3 = Split train' test'" by blast
  have "case chronological_split two_undated 4 True (1 / 2) False 3 of
          Split a b \<Rightarrow> True | _ \<Rightarrow> False"
    by code_simp
  from Split_cases [OF this] obtain train'' test'' where
    u: "chronological_split two_undated 4 True (1 / 2) False 3 = Split train'' test''" by blast
  have s': "rank_based_split (Stratified (\<lambda>xs. xs) rev) seven_ratings 6 True (7 / 10) False 3
              = Split train test" using s by simp
  have t': "rank_based_split Chronological seven_ratings 6 True (3 / 10) True 3
              = Split train' test'" using t by simp
  have u': "rank_based_split Chronological two_undated 4 True (1 / 2) False 3
              = Split train'' test''" using u by simp
  have o1: "\<forall>xs. mset (train_window (Stratified (\<lambda>xs. xs) rev) xs) = mset xs" by simp
  have o2: "\<forall>xs. mset (test_window (Stratified (\<lambda>xs. xs) rev) xs) = mset xs" by simp
  have o3: "\<forall>xs. mset (train_window Chronological xs) = mset xs"
    by (simp add: mset_timeStamp_desc)
  have o4: "\<forall>xs. mset (test_window Chronological xs) = mset xs"
    by (simp add: mset_timeStamp_desc)
  from held_out_counts [OF s' wf o1 o2 R g, unfolded k n c]
  obtain h where h: "rounds_to (double_times (of_nat 7) (7 / 10)) h"
    "group_size ''customerID'' test (IntV 1) = min (nat h) 7"
    "group_size ''customerID'' train (IntV 1) = 7 - nat h"
    by blast
  from rounds_to_unique [OF h(1) r5] have "h = 5" .
  with h(2,3) have 1: "group_size ''customerID'' test (IntV 1) = 5
         \<and> group_size ''customerID'' train (IntV 1) = 2" by simp
  from held_out_counts [OF t' wf o3 o4 R g]
  have 2: "int (group_size ''customerID'' test' (IntV 1)) = 3
         \<and> int (group_size ''customerID'' train' (IntV 1)) = 4"
    unfolding k n by simp
  from held_out_counts [OF u' wf' o3 o4 R' g', unfolded k n' c']
  obtain h' where h': "rounds_to (double_times (of_nat 2) (1 / 2)) h'"
    "group_size ''customerID'' test'' (IntV 1) = min (nat h') 4"
    "group_size ''customerID'' train'' (IntV 1) = 4 - nat h'"
    by blast
  from rounds_to_unique [OF h'(1) r1] have "h' = 1" .
  with h'(2,3) have 3: "group_size ''customerID'' test'' (IntV 1) = 1
         \<and> group_size ''customerID'' train'' (IntV 1) = 3" by simp
  from s t u 1 2 3 show ?thesis by blast
qed

section \<open>The chronological split holds out the most recent records\<close>













section \<open>Train and test partition the filtered input\<close>

subsection \<open>Bags\<close>




subsection \<open>The random split\<close>



subsection \<open>The rank-based splits\<close>















subsection \<open>The non-overlapping split\<close>











text \<open>Records that agree on the returned columns are another way for one record to be
  in both frames, which is why the frames are compared as bags. A customer rated one
  item twice at the same time, with different ratings; \<^verbatim>\<open>chronological_split\<close> returns the
  record (customer 1, item 5, time 9) in the train frame and in the test frame.\<close>

lemma chronological_split_rated_twice:
  "chronological_split rated_twice 2 True (3 / 10) True 1
     = Split
         \<lparr>columns = [''customerID'', ''itemID'', ''timeStamp''],
          rows = [[(''customerID'', IntV 1), (''itemID'', IntV 5), (''timeStamp'', IntV 9)]]\<rparr>
         \<lparr>columns = [''customerID'', ''itemID'', ''timeStamp''],
          rows = [[(''customerID'', IntV 1), (''itemID'', IntV 5), (''timeStamp'', IntV 9)]]\<rparr>"
  by code_simp


end
